theory Spec2Isabelle
  imports Complex_Main
begin

section \<open>The ZFS statistics collector (zfs.py)\<close>

text \<open>
  A shallow embedding of \<^verbatim>\<open>zfs.py\<close>. The script runs the pool and dataset
  management tools, reads kernel statistics files, and builds one dictionary from them.
  The outcomes of the external commands and the contents of the files are parameters of
  the model; every exception of the source is a value \<open>Inl e\<close> of a sum type.

  A Python \<open>str\<close> is a \<open>string\<close>, each \<open>char\<close> standing for the code point of the
  same number, so the model covers the code points below 256. The length limit that
  recent interpreters put on the argument of \<open>int\<close> is not part of the model.
\<close>

subsection \<open>Exceptions\<close>

datatype error =
    IndexError
  | KeyError
  | ValueError
  | FileNotFoundError
  | OSError
  | CalledProcessError
  | ZeroDivisionError

definition bind_e :: "error + 'a \<Rightarrow> ('a \<Rightarrow> error + 'b) \<Rightarrow> error + 'b" where
  "bind_e x f = (case x of Inl e \<Rightarrow> Inl e | Inr v \<Rightarrow> f v)"

text \<open>\<open>xs[i]\<close> for a constant index \<open>i \<ge> 0\<close>.\<close>

definition idx :: "'a list \<Rightarrow> nat \<Rightarrow> error + 'a" where
  "idx xs i = (if i < length xs then Inr (xs ! i) else Inl IndexError)"

text \<open>\<open>d[k]\<close> on a dictionary.\<close>

definition lookup :: "('k \<rightharpoonup> 'v) \<Rightarrow> 'k \<Rightarrow> error + 'v" where
  "lookup d k = (case d k of None \<Rightarrow> Inl KeyError | Some v \<Rightarrow> Inr v)"

text \<open>
  A dictionary built by inserting the pairs of a list from left to right: a later pair
  replaces an earlier one with the same key.
\<close>

definition dict_of :: "('k \<times> 'v) list \<Rightarrow> ('k \<rightharpoonup> 'v)" where
  "dict_of kvs = map_of (rev kvs)"

subsection \<open>String operations of the interpreter\<close>

text \<open>The characters \<open>str.isspace\<close> accepts, which are also those \<open>\s\<close> matches.\<close>

definition space_chars :: "char list" where
  "space_chars = [CHR 0x09, CHR 0x0A, CHR 0x0B, CHR 0x0C, CHR 0x0D, CHR 0x1C, CHR 0x1D,
     CHR 0x1E, CHR 0x1F, CHR 0x20, CHR 0x85, CHR 0xA0]"

definition isspace :: "char \<Rightarrow> bool" where
  "isspace c = (c \<in> set space_chars)"

definition decimal :: "char \<Rightarrow> bool" where
  "decimal c = (c \<in> set ''0123456789'')"

definition digit_val :: "char \<Rightarrow> nat" where
  "digit_val c = of_char c - 48"

text \<open>
  \<open>str.isdigit\<close>: a non-empty string of characters with a digit value. Below 256
  these are the ten decimal digits and the superscripts two, three and one.
\<close>

definition isdigit_char :: "char \<Rightarrow> bool" where
  "isdigit_char c = (decimal c \<or> c \<in> set [CHR 0xB2, CHR 0xB3, CHR 0xB9])"

definition isdigit :: "string \<Rightarrow> bool" where
  "isdigit s = (s \<noteq> [] \<and> list_all isdigit_char s)"

text \<open>\<open>str.strip()\<close>.\<close>

definition strip :: "string \<Rightarrow> string" where
  "strip s = rev (dropWhile isspace (rev (dropWhile isspace s)))"

text \<open>
  \<open>int(s)\<close> on a string: surrounding whitespace is dropped, one sign may follow, then
  decimal digits, where single underscores may stand between two digits. Anything else is
  a ValueError. The whitespace \<open>int\<close> drops is narrower than that of \<open>strip\<close>: the
  conversion turns the spaces above 127 into blanks and then skips the six whitespace
  characters of ASCII, so the separators \<open>0x1C\<close> to \<open>0x1F\<close> are not dropped.
\<close>

definition int_space_chars :: "char list" where
  "int_space_chars = [CHR 0x09, CHR 0x0A, CHR 0x0B, CHR 0x0C, CHR 0x0D, CHR 0x20, CHR 0x85,
     CHR 0xA0]"

definition int_space :: "char \<Rightarrow> bool" where
  "int_space c = (c \<in> set int_space_chars)"

definition int_strip :: "string \<Rightarrow> string" where
  "int_strip s = rev (dropWhile int_space (rev (dropWhile int_space s)))"

fun digits_from :: "nat \<Rightarrow> string \<Rightarrow> nat option" where
  "digits_from acc [] = Some acc"
| "digits_from acc (c # cs) =
     (if decimal c then digits_from (acc * 10 + digit_val c) cs
      else if c = CHR ''_'' then
        (case cs of
           [] \<Rightarrow> None
         | d # ds \<Rightarrow> if decimal d then digits_from (acc * 10 + digit_val d) ds else None)
      else None)"

definition digits :: "string \<Rightarrow> nat option" where
  "digits s = (case s of [] \<Rightarrow> None
     | c # cs \<Rightarrow> if decimal c then digits_from (digit_val c) cs else None)"

definition py_int :: "string \<Rightarrow> error + int" where
  "py_int s =
     (let t = int_strip s;
          neg = (t \<noteq> [] \<and> hd t = CHR ''-'');
          body = (if t \<noteq> [] \<and> (hd t = CHR ''-'' \<or> hd t = CHR ''+'') then tl t else t)
      in case digits body of
           None \<Rightarrow> Inl ValueError
         | Some n \<Rightarrow> Inr (if neg then - int n else int n))"

text \<open>\<open>s.startswith('/')\<close>.\<close>

definition startswith_slash :: "string \<Rightarrow> bool" where
  "startswith_slash s = (s \<noteq> [] \<and> hd s = CHR ''/'')"

text \<open>\<open>' '.join(xs)\<close>.\<close>

fun join_sp :: "string list \<Rightarrow> string" where
  "join_sp [] = []"
| "join_sp [x] = x"
| "join_sp (x # y # zs) = x @ '' '' @ join_sp (y # zs)"

text \<open>
  \<open>re.split(r'\s+', s)\<close>: the pieces of \<open>s\<close> between the maximal runs of whitespace,
  with an empty piece where \<open>s\<close> starts or ends with one. The first argument is the
  piece being read, reversed; the flag says that the last character was whitespace.
\<close>

fun split_ws_from :: "string \<Rightarrow> bool \<Rightarrow> string \<Rightarrow> string list" where
  "split_ws_from cur insep [] = [rev cur]"
| "split_ws_from cur insep (c # cs) =
     (if isspace c then
        (if insep then split_ws_from cur True cs
         else rev cur # split_ws_from [] True cs)
      else split_ws_from (c # cur) False cs)"

definition re_split_ws :: "string \<Rightarrow> string list" where
  "re_split_ws s = split_ws_from [] False s"

text \<open>
  \<open>s.split(c)\<close> and \<open>re.split(c, s)\<close> for a single character \<open>c\<close>: the pieces
  between the occurrences of \<open>c\<close>.
\<close>

fun split_char_from :: "string \<Rightarrow> char \<Rightarrow> string \<Rightarrow> string list" where
  "split_char_from cur sep [] = [rev cur]"
| "split_char_from cur sep (c # cs) =
     (if c = sep then rev cur # split_char_from [] sep cs
      else split_char_from (c # cur) sep cs)"

definition split_char :: "char \<Rightarrow> string \<Rightarrow> string list" where
  "split_char sep s = split_char_from [] sep s"

subsection \<open>run and read_file\<close>

text \<open>
  \<open>run(cmd, split)\<close>. The outcome of \<open>check_output\<close> is the parameter \<open>out\<close>:
  the decoded standard output, or the exception it raised. The two patterns the script
  uses are a tab and a run of whitespace.
\<close>

datatype pattern = Tab | Whitespace

definition re_split :: "pattern \<Rightarrow> string \<Rightarrow> string list" where
  "re_split p s = (case p of Tab \<Rightarrow> split_char (CHR 0x09) s | Whitespace \<Rightarrow> re_split_ws s)"

definition run :: "error + string \<Rightarrow> pattern \<Rightarrow> error + string list list" where
  "run out split =
     bind_e out (\<lambda>r.
       Inr (map (\<lambda>x. re_split split (strip x))
              (filter (\<lambda>x. strip x \<noteq> []) (split_char (CHR 0x0A) r))))"

text \<open>
  \<open>read_file(fn, skip, split)\<close> with the default pattern. The file system is a function
  from a path to the lines the file object yields, or to the exception that opening or
  reading the file raises. \<open>readline\<close> at the end of the file returns an empty string,
  so skipping more lines than the file has leaves no line.
\<close>

type_synonym files = "string \<Rightarrow> error + string list"

definition read_file :: "files \<Rightarrow> string \<Rightarrow> nat \<Rightarrow> error + string list list" where
  "read_file fs fn skip = bind_e (fs fn) (\<lambda>ls. Inr (map re_split_ws (drop skip ls)))"

subsection \<open>pool_status\<close>

text \<open>
  The first loop of \<open>pool_status\<close>, over the state \<open>(pool, scrub)\<close>. \<open>l[0]\<close> raises
  IndexError on an empty row, and \<open>l[1]\<close> on a row that holds \<open>pool:\<close> alone.
\<close>

type_synonym scrub_state = "string \<times> (string \<rightharpoonup> bool)"

definition scrub_step :: "scrub_state \<Rightarrow> string list \<Rightarrow> error + scrub_state" where
  "scrub_step st l =
     (case st of (pool, scrub) \<Rightarrow>
        bind_e (idx l 0) (\<lambda>l0.
        bind_e (if l0 = ''pool:''
                then bind_e (idx l 1) (\<lambda>l1. Inr (l1, scrub(l1 \<mapsto> False)))
                else Inr (pool, scrub)) (\<lambda>(pool', scrub').
        Inr (pool',
             if l0 = ''scan:'' \<and> join_sp (take 3 (drop 1 l)) = ''scrub in progress''
             then scrub'(pool' \<mapsto> True) else scrub'))))"

fun scrub_loop :: "string list list \<Rightarrow> scrub_state \<Rightarrow> error + scrub_state" where
  "scrub_loop [] st = Inr st"
| "scrub_loop (l # ls) st = bind_e (scrub_step st l) (scrub_loop ls)"

text \<open>
  The second loop. The body of \<open>try\<close> converts the three counters in order; any
  exception leads to the record of zeros.
\<close>

record vdev_error =
  err_read :: int
  err_write :: int
  err_cksum :: int

definition try_error_record :: "string list \<Rightarrow> error + vdev_error" where
  "try_error_record x =
     bind_e (idx x 2) (\<lambda>x2. bind_e (py_int x2) (\<lambda>r.
     bind_e (idx x 3) (\<lambda>x3. bind_e (py_int x3) (\<lambda>w.
     bind_e (idx x 4) (\<lambda>x4. bind_e (py_int x4) (\<lambda>c.
     Inr \<lparr>err_read = r, err_write = w, err_cksum = c\<rparr>))))))"

definition error_record :: "string list \<Rightarrow> vdev_error" where
  "error_record x =
     (case try_error_record x of
        Inr v \<Rightarrow> v
      | Inl e \<Rightarrow> \<lparr>err_read = 0, err_write = 0, err_cksum = 0\<rparr>)"

definition skipped :: "string list \<Rightarrow> bool" where
  "skipped x = (length x < 5 \<or> \<not> startswith_slash (x ! 0))"

fun vdev_errors_loop ::
  "string list list \<Rightarrow> (string \<rightharpoonup> vdev_error) \<Rightarrow> (string \<rightharpoonup> vdev_error)" where
  "vdev_errors_loop [] errs = errs"
| "vdev_errors_loop (x # xs) errs =
     vdev_errors_loop xs (if skipped x then errs else errs(x ! 0 \<mapsto> error_record x))"

definition pool_status ::
  "string list list \<Rightarrow> error + (string \<rightharpoonup> bool) \<times> (string \<rightharpoonup> vdev_error)" where
  "pool_status r =
     bind_e (scrub_loop r ('''', Map.empty)) (\<lambda>(pool, scrub).
       Inr (scrub, vdev_errors_loop r Map.empty))"

subsection \<open>The scrub map in the words of the specification\<close>

text \<open>
  The rows of a status report fall into scopes: the rows before the first \<open>pool:\<close>
  marker, and for each marker the rows after it up to the next marker. A scope is being
  scrubbed when one of its rows has \<open>scan:\<close> as its first field and the next three
  fields, joined by single spaces, read \<open>scrub in progress\<close>. \<open>pool_scopes\<close> lists the
  markers in order, each with the name it introduces and whether its scope is being
  scrubbed; \<open>scrub_ok\<close> holds of the rows on which the first loop raises nothing.
\<close>

definition is_pool_row :: "string list \<Rightarrow> bool" where
  "is_pool_row l = (l \<noteq> [] \<and> l ! 0 = ''pool:'')"

definition is_scrub_row :: "string list \<Rightarrow> bool" where
  "is_scrub_row l =
     (l \<noteq> [] \<and> l ! 0 = ''scan:'' \<and> join_sp (take 3 (drop 1 l)) = ''scrub in progress'')"

definition scope :: "string list list \<Rightarrow> string list list" where
  "scope rows = takeWhile (\<lambda>l. \<not> is_pool_row l) rows"

definition scrub_in :: "string list list \<Rightarrow> bool" where
  "scrub_in rows = list_ex is_scrub_row (scope rows)"

fun pool_scopes :: "string list list \<Rightarrow> (string \<times> bool) list" where
  "pool_scopes [] = []"
| "pool_scopes (l # ls) =
     (if is_pool_row l then (l ! 1, scrub_in ls) # pool_scopes ls else pool_scopes ls)"

definition pool_names :: "string list list \<Rightarrow> string set" where
  "pool_names rows = set (map (\<lambda>l. l ! 1) (filter is_pool_row rows))"

definition scrub_entries :: "string \<Rightarrow> string list list \<Rightarrow> (string \<times> bool) list" where
  "scrub_entries cur rows = (if scrub_in rows then [(cur, True)] else []) @ pool_scopes rows"

definition scrub_ok :: "string list \<Rightarrow> bool" where
  "scrub_ok l = (l \<noteq> [] \<and> (l ! 0 = ''pool:'' \<longrightarrow> 2 \<le> length l))"

definition scrub_flag :: "string list list \<Rightarrow> string \<Rightarrow> error + bool option" where
  "scrub_flag rows p = bind_e (pool_status rows) (\<lambda>(scrub, errs). Inr (scrub p))"

text \<open>The entry of the returned device-error map under a key.\<close>

definition error_entry :: "string list list \<Rightarrow> string \<Rightarrow> error + vdev_error option" where
  "error_entry rows k = bind_e (pool_status rows) (\<lambda>(scrub, errs). Inr (errs k))"

subsection \<open>Comprehensions\<close>

text \<open>
  A list or dictionary comprehension \<open>[f(x) for x in xs if c(x)]\<close> evaluates, for
  each element in order, the condition and then the item; the first exception ends it.
\<close>

fun comprehend ::
  "('a \<Rightarrow> error + bool) \<Rightarrow> ('a \<Rightarrow> error + 'b) \<Rightarrow> 'a list \<Rightarrow> error + 'b list" where
  "comprehend c f [] = Inr []"
| "comprehend c f (x # xs) =
     bind_e (c x) (\<lambda>keep.
       if keep then bind_e (f x) (\<lambda>v. bind_e (comprehend c f xs) (\<lambda>vs. Inr (v # vs)))
       else comprehend c f xs)"

definition always :: "'a \<Rightarrow> error + bool" where
  "always x = Inr True"

subsection \<open>pool_io_stats\<close>

definition stat_path :: "string \<Rightarrow> string \<Rightarrow> string" where
  "stat_path pool name = ''/proc/spl/kstat/zfs/'' @ pool @ ''/'' @ name"

definition io_items :: "(string \<times> string) list \<Rightarrow> error + (string \<times> int) list" where
  "io_items zs =
     comprehend (\<lambda>x. Inr (isdigit (snd x)))
       (\<lambda>x. bind_e (py_int (snd x)) (\<lambda>v. Inr (fst x, v))) zs"

text \<open>
  The \<open>try\<close> block guards the first \<open>read_file\<close> only; the two subscripts on \<open>r\<close>
  and the comprehension stand after it.
\<close>

definition io_rows :: "files \<Rightarrow> string \<Rightarrow> error + string list list" where
  "io_rows fs pool =
     (case read_file fs (stat_path pool ''iostats'') 1 of
        Inr r \<Rightarrow> Inr r
      | Inl e \<Rightarrow> read_file fs (stat_path pool ''io'') 1)"

definition pool_io_stats :: "files \<Rightarrow> string \<Rightarrow> error + (string \<rightharpoonup> int)" where
  "pool_io_stats fs pool =
     bind_e (io_rows fs pool) (\<lambda>r.
     bind_e (idx r 0) (\<lambda>r0.
     bind_e (idx r 1) (\<lambda>r1.
     bind_e (io_items (zip r0 r1)) (\<lambda>kvs. Inr (dict_of kvs)))))"

subsection \<open>pool_list\<close>

text \<open>
  \<open>float\<close> is the interpreter's conversion of a string to a floating-point number,
  which is a parameter here, as is the type of its results.
\<close>

record 'f pool =
  pool_name :: string
  pool_size :: int
  pool_alloc :: int
  pool_free :: int
  pool_frag :: int
  pool_usage :: int
  pool_dedup :: 'f
  pool_scrub :: int
  pool_online :: int
  pool_io :: "string \<rightharpoonup> int"

definition int_at :: "string list \<Rightarrow> nat \<Rightarrow> error + int" where
  "int_at x i = bind_e (idx x i) py_int"

definition pool_record ::
  "(string \<Rightarrow> error + 'f) \<Rightarrow> files \<Rightarrow> (string \<rightharpoonup> bool) \<Rightarrow> string list \<Rightarrow> error + 'f pool" where
  "pool_record float fs scrub x =
     bind_e (idx x 0) (\<lambda>name.
     bind_e (int_at x 1) (\<lambda>size.
     bind_e (int_at x 2) (\<lambda>alloc.
     bind_e (int_at x 3) (\<lambda>free.
     bind_e (int_at x 4) (\<lambda>frag.
     bind_e (int_at x 5) (\<lambda>usage.
     bind_e (bind_e (idx x 6) float) (\<lambda>dedup.
     bind_e (lookup scrub name) (\<lambda>s.
     bind_e (idx x 7) (\<lambda>health.
     bind_e (pool_io_stats fs name) (\<lambda>io.
     Inr \<lparr>pool_name = name, pool_size = size, pool_alloc = alloc, pool_free = free,
          pool_frag = frag, pool_usage = usage, pool_dedup = dedup,
          pool_scrub = of_bool s, pool_online = of_bool (health = ''ONLINE''),
          pool_io = io\<rparr>))))))))))"

definition pool_items ::
  "(string \<Rightarrow> error + 'f) \<Rightarrow> files \<Rightarrow> (string \<rightharpoonup> bool) \<Rightarrow> string list list
     \<Rightarrow> error + (string \<times> 'f pool) list" where
  "pool_items float fs scrub r =
     comprehend always
       (\<lambda>x. bind_e (idx x 0) (\<lambda>k. bind_e (pool_record float fs scrub x) (\<lambda>v. Inr (k, v)))) r"

definition pool_list ::
  "(string \<Rightarrow> error + 'f) \<Rightarrow> files \<Rightarrow> error + string \<Rightarrow> (string \<rightharpoonup> bool)
     \<Rightarrow> error + (string \<rightharpoonup> 'f pool)" where
  "pool_list float fs out scrub =
     bind_e (run out Tab) (\<lambda>r.
     bind_e (pool_items float fs scrub r) (\<lambda>kvs. Inr (dict_of kvs)))"

subsection \<open>vdev_list\<close>

record vdev =
  vdev_name :: string
  vdev_size :: int
  vdev_alloc :: int
  vdev_free :: int
  vdev_frag :: int
  vdev_usage :: int
  vdev_online :: int
  vdev_errors :: vdev_error

text \<open>\<open>int(x[i]) if x[i].isdigit() else 0\<close>.\<close>

definition int_or_zero :: "string list \<Rightarrow> nat \<Rightarrow> error + int" where
  "int_or_zero x i = bind_e (idx x i) (\<lambda>s. if isdigit s then py_int s else Inr 0)"

definition vdev_record :: "(string \<rightharpoonup> vdev_error) \<Rightarrow> string list \<Rightarrow> error + vdev" where
  "vdev_record errors x =
     bind_e (idx x 0) (\<lambda>name.
     bind_e (int_or_zero x 1) (\<lambda>size.
     bind_e (int_or_zero x 2) (\<lambda>alloc.
     bind_e (int_or_zero x 3) (\<lambda>free.
     bind_e (int_or_zero x 6) (\<lambda>frag.
     bind_e (int_or_zero x 7) (\<lambda>usage.
     bind_e (idx x 9) (\<lambda>health.
     bind_e (lookup errors name) (\<lambda>errs.
     Inr \<lparr>vdev_name = name, vdev_size = size, vdev_alloc = alloc, vdev_free = free,
          vdev_frag = frag, vdev_usage = usage,
          vdev_online = of_bool (health = ''ONLINE''), vdev_errors = errs\<rparr>))))))))"

definition retained :: "string list \<Rightarrow> error + bool" where
  "retained x = bind_e (idx x 0) (\<lambda>x0. Inr (startswith_slash x0))"

definition vdev_items ::
  "(string \<rightharpoonup> vdev_error) \<Rightarrow> string list list \<Rightarrow> error + (string \<times> vdev) list" where
  "vdev_items errors r =
     comprehend retained
       (\<lambda>x. bind_e (idx x 0) (\<lambda>k. bind_e (vdev_record errors x) (\<lambda>v. Inr (k, v)))) r"

definition vdev_list ::
  "error + string \<Rightarrow> (string \<rightharpoonup> vdev_error) \<Rightarrow> error + (string \<rightharpoonup> vdev)" where
  "vdev_list out errors =
     bind_e (run out Tab) (\<lambda>r.
     bind_e (vdev_items errors r) (\<lambda>kvs. Inr (dict_of kvs)))"

subsection \<open>slab_usage\<close>

definition slab_counted :: "string list \<Rightarrow> error + bool" where
  "slab_counted x = bind_e (idx x 2) (\<lambda>x2. Inr (isdigit x2))"

definition slab_sum :: "string list list \<Rightarrow> error + int" where
  "slab_sum r = bind_e (comprehend slab_counted (\<lambda>x. int_at x 2) r) (\<lambda>vs. Inr (sum_list vs))"

definition slab_usage :: "files \<Rightarrow> error + int" where
  "slab_usage fs = bind_e (read_file fs ''/proc/spl/kmem/slab'' 2) slab_sum"

subsection \<open>arc_stats\<close>

text \<open>
  The true division of two integers and the product with 100 are taken in the real
  numbers: the rounding of the floating-point operations is not part of the model.
\<close>

record arc_l1 =
  l1_size :: int
  l1_hitrate :: real
  l1_free :: int
  l1_meta_used :: int
  l1_meta_limit :: int

record arc_l2 =
  l2_usage :: int
  l2_usage_actual :: int
  l2_hitrate :: real
  l2_bytes_read :: int
  l2_bytes_written :: int
  l2_io_error :: int
  l2_cksum_bad :: int

text \<open>
  \<open>a / b\<close> on two integers raises ZeroDivisionError when \<open>b\<close> is zero. The hit
  rate is \<open>r[key] / l * 100 if l else 0\<close>: the counter is read and divided only when
  \<open>l\<close> is not zero.
\<close>

definition truediv :: "int \<Rightarrow> int \<Rightarrow> error + real" where
  "truediv a b = (if b = 0 then Inl ZeroDivisionError else Inr (real_of_int a / real_of_int b))"

definition hitrate :: "(string \<rightharpoonup> int) \<Rightarrow> string \<Rightarrow> int \<Rightarrow> error + real" where
  "hitrate r key l =
     (if l \<noteq> 0
      then bind_e (lookup r key) (\<lambda>hits. bind_e (truediv hits l) (\<lambda>q. Inr (q * 100)))
      else Inr 0)"

definition arc_of_counters :: "(string \<rightharpoonup> int) \<Rightarrow> error + arc_l1 \<times> arc_l2" where
  "arc_of_counters r =
     bind_e (lookup r ''hits'') (\<lambda>hits.
     bind_e (lookup r ''misses'') (\<lambda>misses.
     bind_e (lookup r ''l2_hits'') (\<lambda>l2_hits.
     bind_e (lookup r ''l2_misses'') (\<lambda>l2_misses.
     bind_e (lookup r ''size'') (\<lambda>size.
     bind_e (hitrate r ''hits'' (hits + misses)) (\<lambda>rate1.
     bind_e (lookup r ''memory_available_bytes'') (\<lambda>free.
     bind_e (lookup r ''arc_meta_used'') (\<lambda>meta_used.
     bind_e (lookup r ''arc_meta_limit'') (\<lambda>meta_limit.
     bind_e (lookup r ''l2_size'') (\<lambda>usage.
     bind_e (lookup r ''l2_asize'') (\<lambda>usage_actual.
     bind_e (hitrate r ''l2_hits'' (l2_hits + l2_misses)) (\<lambda>rate2.
     bind_e (lookup r ''l2_read_bytes'') (\<lambda>bytes_read.
     bind_e (lookup r ''l2_write_bytes'') (\<lambda>bytes_written.
     bind_e (lookup r ''l2_io_error'') (\<lambda>io_error.
     bind_e (lookup r ''l2_cksum_bad'') (\<lambda>cksum_bad.
     Inr (\<lparr>l1_size = size, l1_hitrate = rate1, l1_free = free,
           l1_meta_used = meta_used, l1_meta_limit = meta_limit\<rparr>,
          \<lparr>l2_usage = usage, l2_usage_actual = usage_actual, l2_hitrate = rate2,
           l2_bytes_read = bytes_read, l2_bytes_written = bytes_written,
           l2_io_error = io_error, l2_cksum_bad = cksum_bad\<rparr>)))))))))))))))))"

definition arc_items :: "string list list \<Rightarrow> error + (string \<times> int) list" where
  "arc_items rows =
     comprehend always
       (\<lambda>x. bind_e (idx x 0) (\<lambda>k. bind_e (int_at x 2) (\<lambda>v. Inr (k, v)))) rows"

definition arc_stats :: "files \<Rightarrow> error + arc_l1 \<times> arc_l2" where
  "arc_stats fs =
     bind_e (read_file fs ''/proc/spl/kstat/zfs/arcstats'' 2) (\<lambda>rows.
     bind_e (arc_items rows) (\<lambda>kvs. arc_of_counters (dict_of kvs)))"

subsection \<open>Decimal numerals\<close>

text \<open>
  A numeral is a non-empty string of decimal digits; \<open>decimal_value\<close> is the number it
  denotes. These are the strings on which \<open>isdigit\<close> holds and \<open>int\<close> succeeds.
\<close>

definition decimal_value :: "string \<Rightarrow> nat" where
  "decimal_value s = foldl (\<lambda>a c. a * 10 + digit_val c) 0 s"

definition numeral_str :: "string \<Rightarrow> bool" where
  "numeral_str s = (s \<noteq> [] \<and> list_all decimal s)"

subsection \<open>Values for examples\<close>

text \<open>
  A line of tab-separated fields, a file system in which no file exists, and a stand-in
  for \<open>float\<close> that accepts every string and keeps its text.
\<close>

fun tabbed :: "string list \<Rightarrow> string" where
  "tabbed [] = []"
| "tabbed [x] = x"
| "tabbed (x # y # zs) = x @ [CHR 0x09] @ tabbed (y # zs)"

definition no_files :: files where
  "no_files fn = Inl FileNotFoundError"

definition float_text :: "string \<Rightarrow> error + string" where
  "float_text s = Inr s"

subsection \<open>zfs_list and the script\<close>

text \<open>
  The script calls \<open>pool_status\<close>, then builds the dictionary in the order the
  display is written: \<open>vdev_list\<close>, \<open>pool_list\<close>, \<open>zfs_list\<close>,
  \<open>arc_stats\<close>, \<open>slab_usage\<close>. Nothing catches an exception. The outputs of
  the four commands are parameters.
\<close>

record 'f dataset =
  dataset_name :: string
  dataset_avail :: int
  dataset_used :: int
  dataset_compress :: 'f
  dataset_referenced :: int

definition dataset_record :: "(string \<Rightarrow> error + 'f) \<Rightarrow> string list \<Rightarrow> error + 'f dataset" where
  "dataset_record float x =
     bind_e (idx x 0) (\<lambda>name.
     bind_e (int_at x 1) (\<lambda>avail.
     bind_e (int_at x 2) (\<lambda>used.
     bind_e (bind_e (idx x 3) float) (\<lambda>compress.
     bind_e (int_at x 4) (\<lambda>referenced.
     Inr \<lparr>dataset_name = name, dataset_avail = avail, dataset_used = used,
          dataset_compress = compress, dataset_referenced = referenced\<rparr>)))))"

definition zfs_list ::
  "(string \<Rightarrow> error + 'f) \<Rightarrow> error + string \<Rightarrow> error + (string \<rightharpoonup> 'f dataset)" where
  "zfs_list float out =
     bind_e (run out Tab) (\<lambda>r.
     bind_e (comprehend always
               (\<lambda>x. bind_e (idx x 0) (\<lambda>k. bind_e (dataset_record float x) (\<lambda>v. Inr (k, v)))) r)
       (\<lambda>kvs. Inr (dict_of kvs)))"

record 'f snapshot =
  vdevs :: "string \<rightharpoonup> vdev"
  pools :: "string \<rightharpoonup> 'f pool"
  datasets :: "string \<rightharpoonup> 'f dataset"
  arc :: "arc_l1 \<times> arc_l2"
  slab :: int

definition snapshot ::
  "(string \<Rightarrow> error + 'f) \<Rightarrow> files \<Rightarrow> error + string \<Rightarrow> error + string \<Rightarrow> error + string
     \<Rightarrow> error + string \<Rightarrow> error + 'f snapshot" where
  "snapshot float fs status_out vdev_out pool_out zfs_out =
     bind_e (bind_e (run status_out Whitespace) pool_status) (\<lambda>(scrub, vdev_errors).
     bind_e (vdev_list vdev_out vdev_errors) (\<lambda>v.
     bind_e (pool_list float fs pool_out scrub) (\<lambda>p.
     bind_e (zfs_list float zfs_out) (\<lambda>d.
     bind_e (arc_stats fs) (\<lambda>a.
     bind_e (slab_usage fs) (\<lambda>s.
     Inr \<lparr>vdevs = v, pools = p, datasets = d, arc = a, slab = s\<rparr>))))))"

text \<open>
  A file system for an example: the \<open>iostats\<close> file of the pool \<open>tank\<close> has a
  header line and one more line, its \<open>io\<close> file has a header line and two more.
\<close>

definition short_io :: files where
  "short_io fn =
     (if fn = ''/proc/spl/kstat/zfs/tank/iostats'' then Inr [''hdr'', ''reads writes'']
      else if fn = ''/proc/spl/kstat/zfs/tank/io'' then Inr [''hdr'', ''reads writes'', ''7 9'']
      else Inl FileNotFoundError)"

text \<open>
  The value of the I/O statistics of a pool under a counter name, and two more file
  systems for examples: one whose \<open>iostats\<close> file names a counter twice, and one
  that has the \<open>io\<close> file only.
\<close>

definition io_value :: "files \<Rightarrow> string \<Rightarrow> string \<Rightarrow> error + int option" where
  "io_value fs pool k = bind_e (pool_io_stats fs pool) (\<lambda>m. Inr (m k))"

definition dup_io :: files where
  "dup_io fn =
     (if fn = ''/proc/spl/kstat/zfs/tank/iostats'' then Inr [''hdr'', ''reads reads'', ''7 9'']
      else Inl FileNotFoundError)"

definition legacy_io :: files where
  "legacy_io fn =
     (if fn = ''/proc/spl/kstat/zfs/tank/io''
      then Inr [''hdr'', ''reads writes nread'', ''7 - 12'']
      else Inl FileNotFoundError)"

text \<open>
  Two slab files for examples, each line with its newline: one that ends with an empty
  line, and one whose rows all have three fields.
\<close>

definition slab_short :: files where
  "slab_short fn =
     (if fn = ''/proc/spl/kmem/slab''
      then Inr [''--- cache ---'' @ [CHR 0x0A], ''name flags size'' @ [CHR 0x0A],
                ''kcf_cache 0x40 4096'' @ [CHR 0x0A], [CHR 0x0A]]
      else Inl FileNotFoundError)"

definition slab_ok :: files where
  "slab_ok fn =
     (if fn = ''/proc/spl/kmem/slab''
      then Inr [''--- cache ---'' @ [CHR 0x0A], ''name flags size'' @ [CHR 0x0A],
                ''kcf_cache 0x40 4096'' @ [CHR 0x0A], ''zio_cache 0x40 -'' @ [CHR 0x0A],
                ''ddt_cache 0x40 8192'' @ [CHR 0x0A]]
      else Inl FileNotFoundError)"

section \<open>Properties\<close>

subsection \<open>Auxiliary facts\<close>

lemma bind_e_simps [simp]:
  "bind_e (Inl e) f = Inl e" "bind_e (Inr v) f = f v"
  by (simp_all add: bind_e_def)

lemma bind_e_Inr_iff: "bind_e x f = Inr y \<longleftrightarrow> (\<exists>v. x = Inr v \<and> f v = Inr y)"
  by (cases x) simp_all

lemma scrub_step_cases:
  "scrub_step (cur, m) l =
     (if l = [] then Inl IndexError
      else if is_pool_row l then
        (if length l < 2 then Inl IndexError else Inr (l ! 1, m(l ! 1 \<mapsto> False)))
      else if is_scrub_row l then Inr (cur, m(cur \<mapsto> True))
      else Inr (cur, m))"
  by (auto simp: scrub_step_def idx_def is_pool_row_def is_scrub_row_def)

lemma pool_not_scrub: "is_pool_row l \<Longrightarrow> \<not> is_scrub_row l"
  by (auto simp: is_pool_row_def is_scrub_row_def)

lemma scrub_in_Cons:
  "scrub_in (l # ls) = (\<not> is_pool_row l \<and> (is_scrub_row l \<or> scrub_in ls))"
  by (simp add: scrub_in_def scope_def)

lemma dict_of_append: "dict_of (xs @ ys) = dict_of xs ++ dict_of ys"
  by (simp add: dict_of_def)

lemma dict_of_Cons: "dict_of ((k, v) # ys) = [k \<mapsto> v] ++ dict_of ys"
  using dict_of_append [of "[(k, v)]" ys] by (simp add: dict_of_def)

lemma dict_of_Nil [simp]: "dict_of [] = Map.empty"
  by (simp add: dict_of_def)

lemma scrub_loop_entries:
  "scrub_loop rows (cur, m) = Inr (cur', m') \<Longrightarrow> m' = m ++ dict_of (scrub_entries cur rows)"
proof (induction rows arbitrary: cur m)
  case Nil
  then show ?case by (simp add: scrub_entries_def scrub_in_def scope_def)
next
  case (Cons l ls)
  from Cons.prems obtain st where st: "scrub_step (cur, m) l = Inr st"
    and rest: "scrub_loop ls st = Inr (cur', m')"
    by (auto simp: bind_e_Inr_iff)
  show ?case
  proof (cases "is_pool_row l")
    case True
    with st have st': "st = (l ! 1, m(l ! 1 \<mapsto> False))"
      by (auto simp: scrub_step_cases split: if_splits)
    from Cons.IH [OF rest [unfolded st']]
    have "m' = m(l ! 1 \<mapsto> False) ++ dict_of (scrub_entries (l ! 1) ls)" .
    also have "\<dots> = m ++ dict_of (scrub_entries cur (l # ls))"
      using True
      by (auto simp: scrub_entries_def scrub_in_Cons dict_of_Cons dict_of_append map_add_def
            fun_eq_iff split: option.splits)
    finally show ?thesis .
  next
    case False
    show ?thesis
    proof (cases "is_scrub_row l")
      case True
      with st False have st': "st = (cur, m(cur \<mapsto> True))"
        by (auto simp: scrub_step_cases split: if_splits)
      from Cons.IH [OF rest [unfolded st']]
      have "m' = m(cur \<mapsto> True) ++ dict_of (scrub_entries cur ls)" .
      also have "\<dots> = m ++ dict_of (scrub_entries cur (l # ls))"
        using True False
        by (auto simp: scrub_entries_def scrub_in_Cons dict_of_Cons dict_of_append map_add_def
              fun_eq_iff split: option.splits)
      finally show ?thesis .
    next
      case nscrub: False
      with st False have st': "st = (cur, m)"
        by (auto simp: scrub_step_cases split: if_splits)
      from Cons.IH [OF rest [unfolded st']]
      show ?thesis using False nscrub
        by (simp add: scrub_entries_def scrub_in_Cons)
    qed
  qed
qed

lemma scrub_step_total: "(\<exists>st'. scrub_step st l = Inr st') \<longleftrightarrow> scrub_ok l"
  by (cases st) (auto simp: scrub_step_cases scrub_ok_def is_pool_row_def)

lemma scrub_loop_total:
  "(\<exists>st'. scrub_loop rows st = Inr st') \<longleftrightarrow> (\<forall>l \<in> set rows. scrub_ok l)"
proof (induction rows arbitrary: st)
  case Nil
  show ?case by simp
next
  case (Cons l ls)
  have "(\<exists>st'. scrub_loop (l # ls) st = Inr st') \<longleftrightarrow>
        (\<exists>st1. scrub_step st l = Inr st1 \<and> (\<exists>st'. scrub_loop ls st1 = Inr st'))"
    by (auto simp: bind_e_Inr_iff)
  also have "\<dots> \<longleftrightarrow> (\<exists>st1. scrub_step st l = Inr st1) \<and> (\<forall>l \<in> set ls. scrub_ok l)"
    using Cons.IH by blast
  finally show ?case by (simp add: scrub_step_total del: split_paired_Ex)
qed

lemma scrub_loop_append:
  "scrub_loop (xs @ ys) st = bind_e (scrub_loop xs st) (scrub_loop ys)"
  by (induction xs arbitrary: st) (auto simp: bind_e_def split: sum.splits)

lemma fst_pool_scopes: "fst ` set (pool_scopes rows) = pool_names rows"
  by (induction rows) (auto simp: pool_names_def)

lemma dom_dict_of: "dom (dict_of kvs) = fst ` set kvs"
  by (simp add: dict_of_def dom_map_of_conv_image_fst)

lemma dict_of_notin: "k \<notin> fst ` set kvs \<Longrightarrow> dict_of kvs k = None"
  using dom_dict_of [of kvs] by (auto simp: dom_def)


lemma pool_status_Inr:
  "pool_status rows = Inr (scrub, errs) \<longleftrightarrow>
     (\<exists>pool. scrub_loop rows ('''', Map.empty) = Inr (pool, scrub)) \<and>
     errs = vdev_errors_loop rows Map.empty"
  by (auto simp: pool_status_def bind_e_Inr_iff)

lemma pool_status_returns:
  "(\<exists>res. pool_status rows = Inr res) \<longleftrightarrow> (\<forall>l \<in> set rows. scrub_ok l)"
  using scrub_loop_total [of rows "('''', Map.empty)"]
  by (auto simp: pool_status_def bind_e_Inr_iff)

lemma scrub_in_iff:
  "scrub_in rows \<longleftrightarrow>
     (\<exists>pre l post. rows = pre @ l # post \<and> is_scrub_row l \<and> (\<forall>r \<in> set pre. \<not> is_pool_row r))"
proof
  assume "scrub_in rows"
  then obtain l where l: "l \<in> set (takeWhile (\<lambda>l. \<not> is_pool_row l) rows)" "is_scrub_row l"
    by (auto simp: scrub_in_def scope_def list_ex_iff)
  then obtain a b where ab: "takeWhile (\<lambda>l. \<not> is_pool_row l) rows = a @ l # b"
    by (auto simp: in_set_conv_decomp)
  have "rows = a @ l # (b @ dropWhile (\<lambda>l. \<not> is_pool_row l) rows)"
    using takeWhile_dropWhile_id [of "\<lambda>l. \<not> is_pool_row l" rows] ab by simp
  moreover have "\<forall>r \<in> set a. \<not> is_pool_row r"
    using set_takeWhileD [of _ "\<lambda>l. \<not> is_pool_row l" rows] ab by auto
  ultimately show "\<exists>pre l post. rows = pre @ l # post \<and> is_scrub_row l \<and>
      (\<forall>r \<in> set pre. \<not> is_pool_row r)"
    using l(2) by blast
next
  assume "\<exists>pre l post. rows = pre @ l # post \<and> is_scrub_row l \<and>
      (\<forall>r \<in> set pre. \<not> is_pool_row r)"
  then obtain pre l post where r: "rows = pre @ l # post" "is_scrub_row l"
      "\<forall>r \<in> set pre. \<not> is_pool_row r"
    by blast
  then have "takeWhile (\<lambda>l. \<not> is_pool_row l) rows
      = pre @ takeWhile (\<lambda>l. \<not> is_pool_row l) (l # post)"
    by (simp add: takeWhile_append2)
  then show "scrub_in rows"
    using r(2) pool_not_scrub [of l] by (auto simp: scrub_in_def scope_def list_ex_iff)
qed

lemma pool_names_nonempty:
  assumes "\<forall>l \<in> set rows. scrub_ok l" "\<forall>l \<in> set rows. [] \<notin> set l"
  shows "[] \<notin> pool_names rows"
proof
  assume "[] \<in> pool_names rows"
  then obtain l where l: "l \<in> set rows" "is_pool_row l" "l ! 1 = []"
    by (auto simp: pool_names_def)
  with assms(1) have "1 < length l"
    by (auto simp: scrub_ok_def is_pool_row_def)
  then have "l ! 1 \<in> set l" by (rule nth_mem)
  with l assms(2) show False by auto
qed

subsection \<open>The scrub map\<close>

text \<open>
  Claim C1, as amended. Whenever the status parser returns, the keys of the scrub map are
  the pool names introduced by the rows whose first field is \<open>pool:\<close>, together with
  the empty string when a scrub-in-progress \<open>scan:\<close> row stands before the first
  marker. For a marker that is the last one to introduce its name, the flag of that name
  is true iff its scope (the rows after the marker and before the next one) holds a row
  with first field \<open>scan:\<close> whose next three fields joined by single spaces are
  \<open>scrub in progress\<close>. The flag of the empty string, when no marker introduces it
  and an early scan row exists, is true.
\<close>

theorem scrub_map_by_scopes:
  assumes "pool_status rows = Inr (scrub, errs)"
  shows "dom scrub = pool_names rows \<union> (if scrub_in rows then {''''} else {}) \<and>
         (\<forall>pre l post. rows = pre @ l # post \<and> is_pool_row l \<and> l ! 1 \<notin> pool_names post
            \<longrightarrow> scrub (l ! 1) = Some (scrub_in post)) \<and>
         (scrub_in rows \<and> '''' \<notin> pool_names rows \<longrightarrow> scrub '''' = Some True)"
proof -
  from assms obtain pool where loop: "scrub_loop rows ('''', Map.empty) = Inr (pool, scrub)"
    by (auto simp: pool_status_Inr)
  have eq: "scrub = dict_of (scrub_entries '''' rows)"
    using scrub_loop_entries [OF loop] by simp
  have d: "dom scrub = pool_names rows \<union> (if scrub_in rows then {''''} else {})"
    unfolding eq by (auto simp: dom_dict_of scrub_entries_def fst_pool_scopes [symmetric])
  have l: "scrub (l ! 1) = Some (scrub_in post)"
    if r: "rows = pre @ l # post" and p: "is_pool_row l" and n: "l ! 1 \<notin> pool_names post"
    for pre l post
  proof -
    from loop r obtain st1 st2 where
      s1: "scrub_loop pre ('''', Map.empty) = Inr st1" and
      s2: "scrub_step st1 l = Inr st2" and
      s3: "scrub_loop post st2 = Inr (pool, scrub)"
      by (auto simp: scrub_loop_append bind_e_Inr_iff)
    obtain cur m where st1: "st1 = (cur, m)" by (cases st1)
    from s2 p have st2: "st2 = (l ! 1, m(l ! 1 \<mapsto> False))"
      by (auto simp: st1 scrub_step_cases split: if_splits)
    have "scrub = m(l ! 1 \<mapsto> False) ++ dict_of (scrub_entries (l ! 1) post)"
      using scrub_loop_entries [OF s3 [unfolded st2]] .
    moreover have "dict_of (pool_scopes post) (l ! 1) = None"
      using n by (simp add: dict_of_notin fst_pool_scopes)
    ultimately show ?thesis
      by (simp add: scrub_entries_def dict_of_append dict_of_Cons map_add_def)
  qed
  have e: "scrub '''' = Some True" if "scrub_in rows" "'''' \<notin> pool_names rows"
  proof -
    have "dict_of (pool_scopes rows) '''' = None"
      using that(2) by (simp add: dict_of_notin fst_pool_scopes)
    then show ?thesis
      unfolding eq using that(1) by (simp add: scrub_entries_def dict_of_Cons map_add_def)
  qed
  from d l e show ?thesis by blast
qed

theorem scrub_map_by_scopes_witness:
  "pool_status [[''pool:'', ''tank''], [''state:'', ''ONLINE''], [''pool:'', ''backup''],
                [''scan:'', ''scrub'', ''in'', ''progress'', ''since'', ''Mon'']]
     = Inr ([''tank'' \<mapsto> False, ''backup'' \<mapsto> True], Map.empty) \<and>
   dom [''tank'' \<mapsto> False, ''backup'' \<mapsto> True] = {''tank'', ''backup''} \<and>
   [''tank'' \<mapsto> False, ''backup'' \<mapsto> True] ''backup'' = Some True \<and>
   [''tank'' \<mapsto> False, ''backup'' \<mapsto> True] ''tank'' = Some False"
proof -
  let ?t = "[''pool:'', ''tank'']"
  let ?s = "[''state:'', ''ONLINE'']"
  let ?b = "[''pool:'', ''backup'']"
  let ?c = "[''scan:'', ''scrub'', ''in'', ''progress'', ''since'', ''Mon'']"
  let ?m = "[''tank'' \<mapsto> False, ''backup'' \<mapsto> True]"
  have h: "pool_status [?t, ?s, ?b, ?c] = Inr (?m, Map.empty)"
    by (simp add: pool_status_def scrub_step_def idx_def skipped_def startswith_slash_def)
  note t = scrub_map_by_scopes [OF h]
  have names: "pool_names [?t, ?s, ?b, ?c] = {''tank'', ''backup''}"
    by (auto simp: pool_names_def is_pool_row_def)
  have early: "\<not> scrub_in [?t, ?s, ?b, ?c]"
    by (simp add: scrub_in_def scope_def is_pool_row_def)
  have d: "dom ?m = {''tank'', ''backup''}"
    using t names early by simp
  have "[?t, ?s, ?b, ?c] = [?t, ?s] @ ?b # [?c] \<and> is_pool_row ?b \<and> ?b ! 1 \<notin> pool_names [?c]"
    by (simp add: pool_names_def is_pool_row_def)
  with t have b: "?m (?b ! 1) = Some (scrub_in [?c])" by blast
  have "[?t, ?s, ?b, ?c] = [] @ ?t # [?s, ?b, ?c] \<and> is_pool_row ?t
      \<and> ?t ! 1 \<notin> pool_names [?s, ?b, ?c]"
    by (simp add: pool_names_def is_pool_row_def)
  with t have k: "?m (?t ! 1) = Some (scrub_in [?s, ?b, ?c])" by blast
  have "scrub_in [?c]" "\<not> scrub_in [?s, ?b, ?c]"
    by (simp_all add: scrub_in_def scope_def is_pool_row_def is_scrub_row_def)
  with h d b k show ?thesis by simp
qed

text \<open>
  The claim as first stated fails on a report whose only row is a scrub-in-progress
  \<open>scan:\<close> row: the map then has the empty string as a key, which no \<open>pool:\<close> row
  introduces.
\<close>

theorem scrub_map_keys_counterexample:
  "scrub_flag [[''scan:'', ''scrub'', ''in'', ''progress'']] '''' = Inr (Some True) \<and>
   '''' \<notin> pool_names [[''scan:'', ''scrub'', ''in'', ''progress'']]"
  by (simp add: scrub_flag_def pool_status_def scrub_step_def idx_def pool_names_def
        is_pool_row_def)

text \<open>
  Claim C10. In a whitespace-split report (no field is empty) on which the parser
  returns, a row with first field \<open>scan:\<close> and next three fields reading
  \<open>scrub in progress\<close> that stands before every \<open>pool:\<close> marker makes the scrub map
  hold the empty string as a key, mapped to true.
\<close>

theorem early_scan_row_marks_empty_name:
  assumes "pool_status rows = Inr (scrub, errs)"
    and "rows = pre @ l # post" and "is_scrub_row l" and "\<forall>r \<in> set pre. \<not> is_pool_row r"
    and "\<forall>r \<in> set rows. [] \<notin> set r"
  shows "scrub '''' = Some True"
proof -
  from assms(1) obtain pool where loop: "scrub_loop rows ('''', Map.empty) = Inr (pool, scrub)"
    by (auto simp: pool_status_Inr)
  have ok: "\<forall>l \<in> set rows. scrub_ok l"
    using scrub_loop_total [of rows "('''', Map.empty)"] loop by auto
  have "scrub_in rows" using assms(2-4) by (auto simp: scrub_in_iff)
  then have "scrub = dict_of (('''', True) # pool_scopes rows)"
    using scrub_loop_entries [OF loop] by (simp add: scrub_entries_def)
  moreover have "dict_of (pool_scopes rows) '''' = None"
    using pool_names_nonempty [OF ok assms(5)] by (simp add: dict_of_notin fst_pool_scopes)
  ultimately show ?thesis by (simp add: dict_of_Cons map_add_def)
qed

theorem early_scan_row_marks_empty_name_witness:
  "pool_status [[''scan:'', ''scrub'', ''in'', ''progress'', ''since'', ''Mon''],
                [''pool:'', ''tank'']]
     = Inr (['''' \<mapsto> True, ''tank'' \<mapsto> False], Map.empty) \<and>
   ['''' \<mapsto> True, ''tank'' \<mapsto> False] '''' = Some True"
proof -
  let ?l = "[''scan:'', ''scrub'', ''in'', ''progress'', ''since'', ''Mon'']"
  let ?post = "[[''pool:'', ''tank'']]"
  let ?m = "['''' \<mapsto> True, ''tank'' \<mapsto> False]"
  have h1: "pool_status (?l # ?post) = Inr (?m, Map.empty)"
    by (simp add: pool_status_def scrub_step_def idx_def skipped_def startswith_slash_def)
  have h2: "?l # ?post = [] @ ?l # ?post" by simp
  have h3: "is_scrub_row ?l" by (simp add: is_scrub_row_def)
  have h4: "\<forall>r \<in> set []. \<not> is_pool_row r" by simp
  have h5: "\<forall>r \<in> set (?l # ?post). [] \<notin> set r" by simp
  from early_scan_row_marks_empty_name [OF h1 h2 h3 h4 h5] h1 show ?thesis by simp
qed

lemmas str_defs = py_int_def strip_def isspace_def space_chars_def int_strip_def int_space_def
  int_space_chars_def digits_def decimal_def
  digit_val_def startswith_slash_def isdigit_def isdigit_char_def

lemma vdev_errors_loop_dict:
  "vdev_errors_loop rows errs =
     errs ++ dict_of (map (\<lambda>x. (x ! 0, error_record x)) (filter (\<lambda>x. \<not> skipped x) rows))"
proof (induction rows arbitrary: errs)
  case Nil
  show ?case by simp
next
  case (Cons x xs)
  show ?case
    by (simp add: Cons.IH dict_of_Cons map_add_def fun_eq_iff split: option.splits)
qed

lemma vdev_errors_loop_append:
  "vdev_errors_loop (xs @ ys) errs = vdev_errors_loop ys (vdev_errors_loop xs errs)"
  by (induction xs arbitrary: errs) simp_all

lemma vdev_errors_loop_keeps:
  "errs k = Some v \<Longrightarrow> \<forall>y \<in> set rows. skipped y \<or> y ! 0 \<noteq> k \<Longrightarrow>
     vdev_errors_loop rows errs k = Some v"
proof (induction rows arbitrary: errs)
  case Nil
  then show ?case by simp
next
  case (Cons a rows)
  let ?errs = "if skipped a then errs else errs(a ! 0 \<mapsto> error_record a)"
  have "?errs k = Some v" using Cons.prems by auto
  moreover have "\<forall>y \<in> set rows. skipped y \<or> y ! 0 \<noteq> k" using Cons.prems by simp
  ultimately have "vdev_errors_loop rows ?errs k = Some v" by (rule Cons.IH)
  then show ?case by simp
qed

lemma vdev_errors_loop_dom: "k \<in> dom errs \<Longrightarrow> k \<in> dom (vdev_errors_loop rows errs)"
proof (induction rows arbitrary: errs)
  case Nil
  then show ?case by simp
next
  case (Cons a rows)
  let ?errs = "if skipped a then errs else errs(a ! 0 \<mapsto> error_record a)"
  have "k \<in> dom ?errs" using Cons.prems by auto
  then have "k \<in> dom (vdev_errors_loop rows ?errs)" by (rule Cons.IH)
  then show ?case by simp
qed

lemma error_record_parsed:
  "5 \<le> length x \<Longrightarrow> py_int (x ! 2) = Inr r \<Longrightarrow> py_int (x ! 3) = Inr w \<Longrightarrow>
     py_int (x ! 4) = Inr c \<Longrightarrow>
     error_record x = \<lparr>err_read = r, err_write = w, err_cksum = c\<rparr>"
  by (simp add: error_record_def try_error_record_def idx_def)

lemma error_record_default:
  "py_int (x ! 2) = Inl e \<or> py_int (x ! 3) = Inl e \<or> py_int (x ! 4) = Inl e \<Longrightarrow>
     error_record x = \<lparr>err_read = 0, err_write = 0, err_cksum = 0\<rparr>"
  by (auto simp: error_record_def try_error_record_def idx_def bind_e_def split: sum.splits)

lemma scrub_step_device_row:
  assumes "x \<noteq> []" "startswith_slash (x ! 0)"
  shows "scrub_step st x = Inr st"
proof -
  have "x ! 0 \<noteq> ''pool:''" "x ! 0 \<noteq> ''scan:''"
    using assms(2) by (auto simp: startswith_slash_def)
  then show ?thesis
    using assms(1) by (cases st) (simp add: scrub_step_def idx_def)
qed

subsection \<open>The device-error map\<close>

text \<open>
  Claim C2, as amended. A row with at least five fields whose first field begins with
  \<open>/\<close> yields an entry of the device-error map under its first field: the second
  loop, run on that row, stores the record of the row, and the key is in the final map.
  The record of a row holds its fields at positions 2, 3 and 4 converted by \<open>int\<close>,
  and is all zeros as soon as one conversion fails. The value the final map holds under
  a key is the record of the last such row with that first field. Neither loop raises on
  such a row.
\<close>

theorem device_row_error_entry:
  assumes "x \<in> set rows" and "5 \<le> length x" and "startswith_slash (x ! 0)"
  shows "x ! 0 \<in> dom (vdev_errors_loop rows Map.empty) \<and>
         (\<forall>errs. vdev_errors_loop [x] errs = errs(x ! 0 \<mapsto> error_record x)) \<and>
         (\<forall>r w c. py_int (x ! 2) = Inr r \<and> py_int (x ! 3) = Inr w \<and> py_int (x ! 4) = Inr c
            \<longrightarrow> error_record x = \<lparr>err_read = r, err_write = w, err_cksum = c\<rparr>) \<and>
         (\<forall>e. py_int (x ! 2) = Inl e \<or> py_int (x ! 3) = Inl e \<or> py_int (x ! 4) = Inl e
            \<longrightarrow> error_record x = \<lparr>err_read = 0, err_write = 0, err_cksum = 0\<rparr>) \<and>
         (\<forall>pre post. rows = pre @ x # post \<and> (\<forall>y \<in> set post. skipped y \<or> y ! 0 \<noteq> x ! 0)
            \<longrightarrow> vdev_errors_loop rows Map.empty (x ! 0) = Some (error_record x)) \<and>
         (\<forall>st. scrub_step st x = Inr st)"
proof -
  have ns: "\<not> skipped x" using assms(2,3) by (simp add: skipped_def)
  have step: "vdev_errors_loop [x] errs = errs(x ! 0 \<mapsto> error_record x)" for errs
    using ns by simp
  have last: "vdev_errors_loop rows Map.empty (x ! 0) = Some (error_record x)"
    if "rows = pre @ x # post" "\<forall>y \<in> set post. skipped y \<or> y ! 0 \<noteq> x ! 0" for pre post
  proof -
    have "vdev_errors_loop rows Map.empty
        = vdev_errors_loop post ((vdev_errors_loop pre Map.empty)(x ! 0 \<mapsto> error_record x))"
      using ns by (simp add: that(1) vdev_errors_loop_append)
    then show ?thesis
      using vdev_errors_loop_keeps [OF _ that(2)] by simp
  qed
  have key: "x ! 0 \<in> dom (vdev_errors_loop rows Map.empty)"
  proof -
    from assms(1) obtain pre post where r: "rows = pre @ x # post"
      by (auto simp: in_set_conv_decomp)
    have "vdev_errors_loop rows Map.empty
        = vdev_errors_loop post ((vdev_errors_loop pre Map.empty)(x ! 0 \<mapsto> error_record x))"
      using ns by (simp add: r vdev_errors_loop_append)
    then show ?thesis
      using vdev_errors_loop_dom
        [of "x ! 0" "(vdev_errors_loop pre Map.empty)(x ! 0 \<mapsto> error_record x)" post]
      by simp
  qed
  have "x \<noteq> []" using assms(2) by auto
  then have scr: "scrub_step st x = Inr st" for st
    using assms(3) by (rule scrub_step_device_row)
  from key step last scr error_record_parsed [OF assms(2)] error_record_default [of x]
  show ?thesis by blast
qed

theorem device_row_error_entry_witness:
  "vdev_errors_loop [[''/dev/sda1'', ''ONLINE'', ''3'', ''0'', ''12''],
                     [''/dev/sdb1'', ''ONLINE'', ''-'', ''-'', ''-'']] Map.empty ''/dev/sda1''
     = Some \<lparr>err_read = 3, err_write = 0, err_cksum = 12\<rparr> \<and>
   error_record [''/dev/sdb1'', ''ONLINE'', ''-'', ''-'', ''-'']
     = \<lparr>err_read = 0, err_write = 0, err_cksum = 0\<rparr>"
proof -
  let ?a = "[''/dev/sda1'', ''ONLINE'', ''3'', ''0'', ''12'']"
  let ?b = "[''/dev/sdb1'', ''ONLINE'', ''-'', ''-'', ''-'']"
  have a: "?a \<in> set [?a, ?b]" "5 \<le> length ?a" "startswith_slash (?a ! 0)"
    by (simp_all add: startswith_slash_def)
  have b: "?b \<in> set [?a, ?b]" "5 \<le> length ?b" "startswith_slash (?b ! 0)"
    by (simp_all add: startswith_slash_def)
  note ta = device_row_error_entry [OF a]
  note tb = device_row_error_entry [OF b]
  have pa: "py_int (?a ! 2) = Inr 3 \<and> py_int (?a ! 3) = Inr 0 \<and> py_int (?a ! 4) = Inr 12"
    by (simp add: str_defs)
  with ta have ra: "error_record ?a = \<lparr>err_read = 3, err_write = 0, err_cksum = 12\<rparr>"
    by blast
  have "[?a, ?b] = [] @ ?a # [?b] \<and> (\<forall>y \<in> set [?b]. skipped y \<or> y ! 0 \<noteq> ?a ! 0)"
    by simp
  with ta have la: "vdev_errors_loop [?a, ?b] Map.empty (?a ! 0) = Some (error_record ?a)"
    by blast
  have "py_int (?b ! 2) = Inl ValueError"
    by (simp add: str_defs)
  with tb have rb: "error_record ?b = \<lparr>err_read = 0, err_write = 0, err_cksum = 0\<rparr>"
    by blast
  from la ra rb show ?thesis by simp
qed

text \<open>
  The claim as first stated fails when two such rows share their first field: the map
  holds one record under it, that of the later row. Here the first row has the counters
  3, 0 and 12, and the later row, whose fields are no numbers, leaves all zeros.
\<close>

theorem device_row_entry_counterexample:
  "error_entry [[''/dev/sdd1'', ''ONLINE'', ''3'', ''0'', ''12''],
                [''/dev/sdd1'', ''INUSE'', ''currently'', ''in'', ''use'']] ''/dev/sdd1''
     = Inr (Some \<lparr>err_read = 0, err_write = 0, err_cksum = 0\<rparr>) \<and>
   py_int ''3'' = Inr 3 \<and> py_int ''0'' = Inr 0 \<and> py_int ''12'' = Inr 12"
  by (simp add: error_entry_def pool_status_def scrub_step_def idx_def skipped_def
        error_record_def try_error_record_def str_defs)

subsection \<open>Numerals and comprehensions\<close>

lemma decimal_not_space: "decimal c \<Longrightarrow> \<not> int_space c"
  by (auto simp: decimal_def int_space_def int_space_chars_def)

lemma decimal_not_sign: "decimal c \<Longrightarrow> c \<noteq> CHR ''-'' \<and> c \<noteq> CHR ''+''"
  by (auto simp: decimal_def)

lemma dropWhile_hd: "xs \<noteq> [] \<Longrightarrow> \<not> P (hd xs) \<Longrightarrow> dropWhile P xs = xs"
  by (cases xs) simp_all

lemma strip_numeral: "numeral_str s \<Longrightarrow> int_strip s = s"
proof -
  assume n: "numeral_str s"
  then have ne: "s \<noteq> []" and all: "\<forall>c \<in> set s. decimal c"
    by (auto simp: numeral_str_def list_all_iff)
  have 1: "dropWhile int_space s = s"
    using ne all by (intro dropWhile_hd) (auto simp: decimal_not_space)
  have "rev s \<noteq> []" using ne by simp
  moreover have "\<not> int_space (hd (rev s))"
    using ne all by (simp add: hd_rev decimal_not_space)
  ultimately have 2: "dropWhile int_space (rev s) = rev s" by (rule dropWhile_hd)
  show "int_strip s = s" by (simp add: int_strip_def 1 2)
qed

lemma digits_from_decimal:
  "list_all decimal cs \<Longrightarrow>
     digits_from acc cs = Some (foldl (\<lambda>a c. a * 10 + digit_val c) acc cs)"
  by (induction cs arbitrary: acc) simp_all

lemma digits_numeral: "numeral_str s \<Longrightarrow> digits s = Some (decimal_value s)"
  by (cases s) (simp_all add: numeral_str_def digits_def decimal_value_def digits_from_decimal)

lemma py_int_numeral: "numeral_str s \<Longrightarrow> py_int s = Inr (int (decimal_value s))"
proof -
  assume n: "numeral_str s"
  then have "s \<noteq> []" "decimal (hd s)"
    by (auto simp: numeral_str_def list_all_iff)
  then have "hd s \<noteq> CHR ''-''" "hd s \<noteq> CHR ''+''"
    using decimal_not_sign by auto
  then show ?thesis
    by (simp add: py_int_def strip_numeral [OF n] digits_numeral [OF n])
qed

lemma numeral_isdigit: "numeral_str s \<Longrightarrow> isdigit s"
  by (auto simp: numeral_str_def isdigit_def isdigit_char_def list_all_iff)

lemma digits_from_isdigit:
  "digits_from acc cs = Some n \<Longrightarrow> list_all isdigit_char cs \<Longrightarrow> list_all decimal cs"
proof (induction acc cs rule: digits_from.induct)
  case (1 acc)
  show ?case by simp
next
  case (2 acc c cs)
  have us: "\<not> isdigit_char (CHR ''_'')"
    by (simp add: isdigit_char_def decimal_def)
  from "2.prems" have d: "decimal c"
    using us by (auto split: if_splits)
  with "2.prems" "2.IH"(1) show ?case by simp
qed

lemma isdigit_char_not_space: "isdigit_char c \<Longrightarrow> \<not> int_space c"
  by (auto simp: isdigit_char_def decimal_def int_space_def int_space_chars_def)

lemma isdigit_char_not_sign: "isdigit_char c \<Longrightarrow> c \<noteq> CHR ''-'' \<and> c \<noteq> CHR ''+''"
  by (auto simp: isdigit_char_def decimal_def)

lemma strip_isdigit: "isdigit s \<Longrightarrow> int_strip s = s"
proof -
  assume n: "isdigit s"
  then have ne: "s \<noteq> []" and all: "\<forall>c \<in> set s. isdigit_char c"
    by (auto simp: isdigit_def list_all_iff)
  have 1: "dropWhile int_space s = s"
    using ne all by (intro dropWhile_hd) (auto simp: isdigit_char_not_space)
  have "rev s \<noteq> []" using ne by simp
  moreover have "\<not> int_space (hd (rev s))"
    using ne all by (simp add: hd_rev isdigit_char_not_space)
  ultimately have 2: "dropWhile int_space (rev s) = rev s" by (rule dropWhile_hd)
  show "int_strip s = s" by (simp add: int_strip_def 1 2)
qed

lemma py_int_isdigit:
  assumes "isdigit s"
  shows "py_int s = (if numeral_str s then Inr (int (decimal_value s)) else Inl ValueError)"
proof (cases "numeral_str s")
  case True
  then show ?thesis by (simp add: py_int_numeral)
next
  case False
  from assms have ne: "s \<noteq> []" and all: "list_all isdigit_char s"
    by (auto simp: isdigit_def)
  then have sign: "hd s \<noteq> CHR ''-''" "hd s \<noteq> CHR ''+''"
    using isdigit_char_not_sign [of "hd s"] by (auto simp: list_all_iff)
  have "digits s = None"
  proof (rule ccontr)
    assume "digits s \<noteq> None"
    then obtain n where n: "digits s = Some n" by auto
    obtain c cs where s: "s = c # cs" using ne by (cases s) auto
    from n s have c: "decimal c" and f: "digits_from (digit_val c) cs = Some n"
      by (auto simp: digits_def split: if_splits)
    from all s have "list_all isdigit_char cs" by simp
    with f have "list_all decimal cs" by (rule digits_from_isdigit)
    with c s have "numeral_str s" by (simp add: numeral_str_def)
    with False show False by simp
  qed
  then show ?thesis
    using False sign ne by (simp add: py_int_def strip_isdigit [OF assms])
qed

lemma comprehend_Inr_iff:
  "comprehend c f xs = Inr vs \<longleftrightarrow>
     (\<forall>x \<in> set xs. \<exists>b. c x = Inr b) \<and>
     (\<forall>x \<in> set xs. c x = Inr True \<longrightarrow> (\<exists>v. f x = Inr v)) \<and>
     vs = map (\<lambda>x. projr (f x)) (filter (\<lambda>x. c x = Inr True) xs)"
proof (induction xs arbitrary: vs)
  case Nil
  show ?case by auto
next
  case (Cons x xs)
  show ?case
  proof (cases "c x")
    case (Inl e)
    then show ?thesis by auto
  next
    case (Inr b)
    show ?thesis
    proof (cases b)
      case False
      with Inr show ?thesis by (auto simp: Cons.IH)
    next
      case True
      show ?thesis
      proof (cases "f x")
        case (Inl e)
        with Inr True show ?thesis by auto
      next
        case fx: (Inr v)
        with Inr True show ?thesis
          by (auto simp: bind_e_Inr_iff Cons.IH)
      qed
    qed
  qed
qed

lemma comprehend_append:
  "comprehend c f (xs @ ys) =
     bind_e (comprehend c f xs) (\<lambda>us. bind_e (comprehend c f ys) (\<lambda>vs. Inr (us @ vs)))"
proof (induction xs)
  case Nil
  show ?case by (cases "comprehend c f ys") simp_all
next
  case (Cons x xs)
  show ?case
    by (cases "c x"; cases "f x"; cases "comprehend c f xs"; cases "comprehend c f ys")
       (simp_all add: Cons.IH)
qed

lemma comprehend_first_error:
  assumes "comprehend c f pre = Inr us"
    and "c x = Inl e \<or> (c x = Inr True \<and> f x = Inl e)"
  shows "comprehend c f (pre @ x # post) = Inl e"
  using assms by (auto simp: comprehend_append)

lemma comprehend_fails:
  assumes "x \<in> set xs" and "c x = Inl e \<or> (c x = Inr True \<and> f x = Inl e)"
  shows "\<exists>e'. comprehend c f xs = Inl e'"
proof (cases "comprehend c f xs")
  case (Inl e')
  then show ?thesis by blast
next
  case (Inr vs)
  then show ?thesis
    using assms by (auto simp: comprehend_Inr_iff)
qed

subsection \<open>The listing builders\<close>

lemma idx_Inr_iff: "idx xs i = Inr v \<longleftrightarrow> i < length xs \<and> v = xs ! i"
  by (auto simp: idx_def)

lemma lookup_Inr_iff: "lookup d k = Inr v \<longleftrightarrow> d k = Some v"
  by (auto simp: lookup_def split: option.splits)

lemma int_at_Inr_iff: "int_at x i = Inr v \<longleftrightarrow> i < length x \<and> py_int (x ! i) = Inr v"
  by (auto simp: int_at_def bind_e_Inr_iff idx_Inr_iff)

lemma int_or_zero_Inr_iff:
  "int_or_zero x i = Inr v \<longleftrightarrow>
     i < length x \<and> (if isdigit (x ! i) then py_int (x ! i) = Inr v else v = 0)"
  by (auto simp: int_or_zero_def bind_e_Inr_iff idx_Inr_iff)

lemma bind_e_InrE:
  assumes "bind_e x f = Inr y"
  obtains v where "x = Inr v" and "f v = Inr y"
  using assms by (auto simp: bind_e_Inr_iff)

lemma pool_record_Inr:
  assumes "pool_record float fs scrub x = Inr p"
  shows "8 \<le> length x \<and> pool_name p = x ! 0 \<and>
         pool_online p = of_bool (x ! 7 = ''ONLINE'') \<and>
         (\<exists>s. scrub (x ! 0) = Some s \<and> pool_scrub p = of_bool s) \<and>
         pool_io_stats fs (x ! 0) = Inr (pool_io p)"
  using assms unfolding pool_record_def
  by (elim bind_e_InrE) (auto simp: idx_Inr_iff lookup_Inr_iff int_at_Inr_iff)

lemma vdev_record_Inr:
  assumes "vdev_record errors x = Inr v"
  shows "10 \<le> length x \<and> vdev_name v = x ! 0 \<and>
         vdev_online v = of_bool (x ! 9 = ''ONLINE'') \<and>
         errors (x ! 0) = Some (vdev_errors v) \<and>
         int_or_zero x 1 = Inr (vdev_size v) \<and> int_or_zero x 2 = Inr (vdev_alloc v) \<and>
         int_or_zero x 3 = Inr (vdev_free v) \<and> int_or_zero x 6 = Inr (vdev_frag v) \<and>
         int_or_zero x 7 = Inr (vdev_usage v)"
  using assms unfolding vdev_record_def
  by (elim bind_e_InrE) (auto simp: idx_Inr_iff lookup_Inr_iff)

lemma retained_True_iff: "retained x = Inr True \<longleftrightarrow> x \<noteq> [] \<and> startswith_slash (x ! 0)"
  by (auto simp: retained_def bind_e_Inr_iff idx_Inr_iff)

lemma retained_Inr_iff: "(\<exists>b. retained x = Inr b) \<longleftrightarrow> x \<noteq> []"
  by (auto simp: retained_def bind_e_Inr_iff idx_Inr_iff)

lemma pool_items_Inr:
  assumes "pool_items float fs scrub r = Inr kvs"
  shows "kvs = map (\<lambda>x. (x ! 0, projr (pool_record float fs scrub x))) r \<and>
         (\<forall>x \<in> set r. \<exists>p. pool_record float fs scrub x = Inr p)"
proof -
  let ?f = "\<lambda>x. bind_e (idx x 0) (\<lambda>k. bind_e (pool_record float fs scrub x) (\<lambda>v. Inr (k, v)))"
  from assms have ok: "\<forall>x \<in> set r. \<exists>v. ?f x = Inr v"
    and kvs: "kvs = map (\<lambda>x. projr (?f x)) r"
    by (auto simp: pool_items_def comprehend_Inr_iff always_def)
  have rec: "\<exists>p. pool_record float fs scrub x = Inr p \<and> ?f x = Inr (x ! 0, p)"
    if "x \<in> set r" for x
    using ok that by (auto simp: bind_e_Inr_iff idx_Inr_iff)
  have pr: "projr (?f x) = (x ! 0, projr (pool_record float fs scrub x))" if "x \<in> set r" for x
  proof -
    from rec [OF that] obtain p where "pool_record float fs scrub x = Inr p"
      and "?f x = Inr (x ! 0, p)" by blast
    then show ?thesis by simp
  qed
  have "map (\<lambda>x. projr (?f x)) r = map (\<lambda>x. (x ! 0, projr (pool_record float fs scrub x))) r"
    by (rule map_cong [OF refl]) (rule pr)
  with kvs rec show ?thesis by blast
qed

lemma vdev_items_Inr:
  assumes "vdev_items errors r = Inr kvs"
  shows "kvs = map (\<lambda>x. (x ! 0, projr (vdev_record errors x)))
                 (filter (\<lambda>x. startswith_slash (x ! 0)) r) \<and>
         (\<forall>x \<in> set r. x \<noteq> []) \<and>
         (\<forall>x \<in> set r. startswith_slash (x ! 0) \<longrightarrow> (\<exists>v. vdev_record errors x = Inr v))"
proof -
  let ?f = "\<lambda>x. bind_e (idx x 0) (\<lambda>k. bind_e (vdev_record errors x) (\<lambda>v. Inr (k, v)))"
  from assms have c: "\<forall>x \<in> set r. \<exists>b. retained x = Inr b"
    and ok: "\<forall>x \<in> set r. retained x = Inr True \<longrightarrow> (\<exists>v. ?f x = Inr v)"
    and kvs: "kvs = map (\<lambda>x. projr (?f x)) (filter (\<lambda>x. retained x = Inr True) r)"
    by (auto simp: vdev_items_def comprehend_Inr_iff)
  have ne: "\<forall>x \<in> set r. x \<noteq> []"
    using c retained_Inr_iff by blast
  have flt: "filter (\<lambda>x. retained x = Inr True) r = filter (\<lambda>x. startswith_slash (x ! 0)) r"
    using ne by (intro filter_cong) (auto simp: retained_True_iff)
  have rec: "\<exists>v. vdev_record errors x = Inr v \<and> ?f x = Inr (x ! 0, v)"
    if "x \<in> set r" "startswith_slash (x ! 0)" for x
  proof -
    from that ne have "retained x = Inr True" by (simp add: retained_True_iff)
    with ok that(1) obtain kv where "?f x = Inr kv" by blast
    then show ?thesis by (auto simp: bind_e_Inr_iff idx_Inr_iff)
  qed
  have pr: "projr (?f x) = (x ! 0, projr (vdev_record errors x))"
    if "x \<in> set (filter (\<lambda>x. startswith_slash (x ! 0)) r)" for x
  proof -
    from that have "x \<in> set r" "startswith_slash (x ! 0)" by auto
    from rec [OF this] obtain v where "vdev_record errors x = Inr v"
      and "?f x = Inr (x ! 0, v)" by blast
    then show ?thesis by simp
  qed
  have "map (\<lambda>x. projr (?f x)) (filter (\<lambda>x. startswith_slash (x ! 0)) r)
      = map (\<lambda>x. (x ! 0, projr (vdev_record errors x))) (filter (\<lambda>x. startswith_slash (x ! 0)) r)"
    by (rule map_cong [OF refl]) (rule pr)
  with kvs flt have "kvs = map (\<lambda>x. (x ! 0, projr (vdev_record errors x)))
                 (filter (\<lambda>x. startswith_slash (x ! 0)) r)" by simp
  with ne rec show ?thesis by blast
qed

lemma of_bool_int_iff: "(of_bool b = (1::int)) = b" "(of_bool b = (0::int)) = (\<not> b)"
  by simp_all

lemmas run_defs = idx_def lookup_def int_at_def int_or_zero_def always_def retained_def
  read_file_def re_split_ws_def stat_path_def io_rows_def io_items_def pool_io_stats_def
  pool_record_def pool_items_def vdev_record_def vdev_items_def

text \<open>
  Claim C5. When the pool listing is built, every row has a record, whose online flag is
  1 iff the field at position 7 is exactly \<open>ONLINE\<close> and 0 otherwise; when the device
  listing is built, the same holds of every retained row and its field at position 9.
\<close>

theorem online_flag_exact:
  "(pool_items float fs scrub r = Inr kvs \<longrightarrow>
      (\<forall>x \<in> set r. \<exists>p. (x ! 0, p) \<in> set kvs \<and> pool_record float fs scrub x = Inr p \<and>
         7 < length x \<and>
         (pool_online p = 1 \<longleftrightarrow> x ! 7 = ''ONLINE'') \<and>
         (pool_online p = 0 \<longleftrightarrow> x ! 7 \<noteq> ''ONLINE''))) \<and>
   (vdev_items errors r' = Inr kvs' \<longrightarrow>
      (\<forall>x \<in> set r'. startswith_slash (x ! 0) \<longrightarrow>
         (\<exists>v. (x ! 0, v) \<in> set kvs' \<and> vdev_record errors x = Inr v \<and> 9 < length x \<and>
            (vdev_online v = 1 \<longleftrightarrow> x ! 9 = ''ONLINE'') \<and>
            (vdev_online v = 0 \<longleftrightarrow> x ! 9 \<noteq> ''ONLINE''))))"
proof (intro conjI impI ballI)
  fix x
  assume items: "pool_items float fs scrub r = Inr kvs" and x: "x \<in> set r"
  from pool_items_Inr [OF items] x obtain p where p: "pool_record float fs scrub x = Inr p"
    and kvs: "kvs = map (\<lambda>x. (x ! 0, projr (pool_record float fs scrub x))) r"
    by blast
  have "(x ! 0, p) \<in> set kvs"
    unfolding kvs using x p by (force simp: image_iff)
  moreover note pool_record_Inr [OF p]
  ultimately show "\<exists>p. (x ! 0, p) \<in> set kvs \<and> pool_record float fs scrub x = Inr p \<and>
         7 < length x \<and>
         (pool_online p = 1 \<longleftrightarrow> x ! 7 = ''ONLINE'') \<and>
         (pool_online p = 0 \<longleftrightarrow> x ! 7 \<noteq> ''ONLINE'')"
    using p by (intro exI [of _ p]) (simp add: of_bool_int_iff)
next
  fix x
  assume items: "vdev_items errors r' = Inr kvs'" and x: "x \<in> set r'"
    and sl: "startswith_slash (x ! 0)"
  from vdev_items_Inr [OF items] x sl obtain v where v: "vdev_record errors x = Inr v"
    and kvs: "kvs' = map (\<lambda>x. (x ! 0, projr (vdev_record errors x)))
                 (filter (\<lambda>x. startswith_slash (x ! 0)) r')"
    by blast
  have "(x ! 0, v) \<in> set kvs'"
    unfolding kvs using x sl v by (force simp: image_iff)
  moreover note vdev_record_Inr [OF v]
  ultimately show "\<exists>v. (x ! 0, v) \<in> set kvs' \<and> vdev_record errors x = Inr v \<and> 9 < length x \<and>
            (vdev_online v = 1 \<longleftrightarrow> x ! 9 = ''ONLINE'') \<and>
            (vdev_online v = 0 \<longleftrightarrow> x ! 9 \<noteq> ''ONLINE'')"
    using v by (intro exI [of _ v]) (simp add: of_bool_int_iff)
qed

theorem online_flag_exact_witness:
  "(\<exists>p. pool_record (\<lambda>s. Inr s) (\<lambda>fn. Inr [''hdr'', ''reads writes'', ''7 9''])
          [''tank'' \<mapsto> False, ''backup'' \<mapsto> True]
          [''tank'', ''10'', ''4'', ''6'', ''1'', ''40'', ''1.00'', ''ONLINE''] = Inr p \<and>
        pool_online p = 1) \<and>
   (\<exists>p. pool_record (\<lambda>s. Inr s) (\<lambda>fn. Inr [''hdr'', ''reads writes'', ''7 9''])
          [''tank'' \<mapsto> False, ''backup'' \<mapsto> True]
          [''backup'', ''10'', ''4'', ''6'', ''1'', ''40'', ''1.00'', ''DEGRADED''] = Inr p \<and>
        pool_online p = 0) \<and>
   (\<exists>v. vdev_record [''/dev/sda'' \<mapsto> \<lparr>err_read = 0, err_write = 0, err_cksum = 0\<rparr>]
          [''/dev/sda'', ''100'', ''-'', ''-'', ''-'', ''-'', ''-'', ''-'', ''-'', ''Online'']
          = Inr v \<and>
        vdev_online v = 0)"
proof -
  let ?F = "\<lambda>s::string. Inr s :: error + string"
  let ?fs = "\<lambda>fn::string. Inr [''hdr'', ''reads writes'', ''7 9''] :: error + string list"
  let ?s = "[''tank'' \<mapsto> False, ''backup'' \<mapsto> True]"
  let ?t = "[''tank'', ''10'', ''4'', ''6'', ''1'', ''40'', ''1.00'', ''ONLINE'']"
  let ?b = "[''backup'', ''10'', ''4'', ''6'', ''1'', ''40'', ''1.00'', ''DEGRADED'']"
  let ?e = "[''/dev/sda'' \<mapsto> \<lparr>err_read = 0, err_write = 0, err_cksum = 0\<rparr>]"
  let ?d = "[''/dev/sda'', ''100'', ''-'', ''-'', ''-'', ''-'', ''-'', ''-'', ''-'', ''Online'']"
  let ?n = "[''tank'', ''100'', ''-'', ''-'', ''-'', ''-'', ''-'', ''-'', ''-'', ''ONLINE'']"
  have "\<exists>kvs. pool_items ?F ?fs ?s [?t, ?b] = Inr kvs"
    by (simp add: run_defs str_defs)
  then obtain kvs where h1: "pool_items ?F ?fs ?s [?t, ?b] = Inr kvs" ..
  have "\<exists>kvs. vdev_items ?e [?n, ?d] = Inr kvs"
    by (simp add: run_defs str_defs)
  then obtain kvs' where h2: "vdev_items ?e [?n, ?d] = Inr kvs'" ..
  note t = online_flag_exact [of ?F ?fs ?s "[?t, ?b]" kvs ?e "[?n, ?d]" kvs']
  from t h1 have a: "\<exists>p. pool_record ?F ?fs ?s ?t = Inr p \<and> pool_online p = 1"
    by force
  from t h1 have b: "\<exists>p. pool_record ?F ?fs ?s ?b = Inr p \<and> pool_online p = 0"
    by force
  have "startswith_slash (?d ! 0)" by (simp add: startswith_slash_def)
  with t h2 have c: "\<exists>v. vdev_record ?e ?d = Inr v \<and> vdev_online v = 0"
    by force
  from a b c show ?thesis by blast
qed

lemma int_or_zero_total:
  assumes "i < length x" and "\<not> isdigit (x ! i) \<or> numeral_str (x ! i)"
  shows "\<exists>v. int_or_zero x i = Inr v"
  using assms by (auto simp: int_or_zero_def idx_def py_int_numeral)

lemma vdev_record_total:
  assumes "10 \<le> length x" and "errors (x ! 0) = Some e"
    and "\<forall>i \<in> {1, 2, 3, 6, 7}. \<not> isdigit (x ! i) \<or> numeral_str (x ! i)"
  shows "\<exists>v. vdev_record errors x = Inr v"
proof -
  obtain a where a: "int_or_zero x 1 = Inr a"
    using int_or_zero_total [of 1 x] assms(1,3) by auto
  obtain b where b: "int_or_zero x 2 = Inr b"
    using int_or_zero_total [of 2 x] assms(1,3) by auto
  obtain c where c: "int_or_zero x 3 = Inr c"
    using int_or_zero_total [of 3 x] assms(1,3) by auto
  obtain d where d: "int_or_zero x 6 = Inr d"
    using int_or_zero_total [of 6 x] assms(1,3) by auto
  obtain f where f: "int_or_zero x 7 = Inr f"
    using int_or_zero_total [of 7 x] assms(1,3) by auto
  show ?thesis
    using assms(1,2) a b c d f by (auto simp: vdev_record_def idx_def lookup_def)
qed

lemma vdev_items_total:
  assumes "\<forall>x \<in> set r. x \<noteq> [] \<and> (startswith_slash (x ! 0) \<longrightarrow>
      10 \<le> length x \<and> x ! 0 \<in> dom errors \<and>
      (\<forall>i \<in> {1, 2, 3, 6, 7}. \<not> isdigit (x ! i) \<or> numeral_str (x ! i)))"
  shows "\<exists>kvs. vdev_items errors r = Inr kvs"
proof -
  let ?f = "\<lambda>x. bind_e (idx x 0) (\<lambda>k. bind_e (vdev_record errors x) (\<lambda>v. Inr (k, v)))"
  have c: "\<forall>x \<in> set r. \<exists>b. retained x = Inr b"
    using assms by (simp add: retained_Inr_iff)
  have f: "\<exists>v. ?f x = Inr v" if "x \<in> set r" "retained x = Inr True" for x
  proof -
    from that have sl: "startswith_slash (x ! 0)" and ne: "x \<noteq> []"
      by (simp_all add: retained_True_iff)
    with assms that(1) obtain e where "10 \<le> length x" "errors (x ! 0) = Some e"
      "\<forall>i \<in> {1, 2, 3, 6, 7}. \<not> isdigit (x ! i) \<or> numeral_str (x ! i)"
      by (auto simp: dom_def)
    then obtain v where "vdev_record errors x = Inr v"
      using vdev_record_total by blast
    then show ?thesis using ne by (simp add: idx_def)
  qed
  show ?thesis
    unfolding vdev_items_def comprehend_Inr_iff using c f by blast
qed

text \<open>
  Claim C8. When the device listing is built, its items are those of the rows whose first
  field begins with \<open>/\<close>, in order, and the keys of the dictionary are the first
  fields of these rows. In the record of each kept row, a size, allocated, free,
  fragmentation or usage field on which \<open>isdigit\<close> fails is 0, and one on which it
  holds is its \<open>int\<close>. The listing is built whenever every row has a first field and
  every kept row has ten fields, an entry in the error map, and each of the five fields
  either a numeral or a string on which \<open>isdigit\<close> fails: such a field causes no
  failure.
\<close>

theorem kept_rows_coerced:
  "(vdev_items errors r = Inr kvs \<longrightarrow>
      map fst kvs = map (\<lambda>x. x ! 0) (filter (\<lambda>x. startswith_slash (x ! 0)) r) \<and>
      dom (dict_of kvs) = (\<lambda>x. x ! 0) ` {x \<in> set r. startswith_slash (x ! 0)} \<and>
      (\<forall>x \<in> set r. startswith_slash (x ! 0) \<longrightarrow>
         (\<exists>v. (x ! 0, v) \<in> set kvs \<and> vdev_record errors x = Inr v \<and>
            (\<not> isdigit (x ! 1) \<longrightarrow> vdev_size v = 0) \<and>
            (\<not> isdigit (x ! 2) \<longrightarrow> vdev_alloc v = 0) \<and>
            (\<not> isdigit (x ! 3) \<longrightarrow> vdev_free v = 0) \<and>
            (\<not> isdigit (x ! 6) \<longrightarrow> vdev_frag v = 0) \<and>
            (\<not> isdigit (x ! 7) \<longrightarrow> vdev_usage v = 0) \<and>
            (isdigit (x ! 1) \<longrightarrow> py_int (x ! 1) = Inr (vdev_size v)) \<and>
            (isdigit (x ! 2) \<longrightarrow> py_int (x ! 2) = Inr (vdev_alloc v)) \<and>
            (isdigit (x ! 3) \<longrightarrow> py_int (x ! 3) = Inr (vdev_free v)) \<and>
            (isdigit (x ! 6) \<longrightarrow> py_int (x ! 6) = Inr (vdev_frag v)) \<and>
            (isdigit (x ! 7) \<longrightarrow> py_int (x ! 7) = Inr (vdev_usage v))))) \<and>
   ((\<forall>x \<in> set r. x \<noteq> [] \<and> (startswith_slash (x ! 0) \<longrightarrow>
        10 \<le> length x \<and> x ! 0 \<in> dom errors \<and>
        (\<forall>i \<in> {1, 2, 3, 6, 7}. \<not> isdigit (x ! i) \<or> numeral_str (x ! i))))
      \<longrightarrow> (\<exists>kvs. vdev_items errors r = Inr kvs))"
proof (intro conjI impI ballI)
  assume items: "vdev_items errors r = Inr kvs"
  note I = vdev_items_Inr [OF items]
  from I show keys: "map fst kvs = map (\<lambda>x. x ! 0) (filter (\<lambda>x. startswith_slash (x ! 0)) r)"
    by (simp add: comp_def)
  have "dom (dict_of kvs) = set (map fst kvs)"
    by (simp add: dom_dict_of)
  then show "dom (dict_of kvs) = (\<lambda>x. x ! 0) ` {x \<in> set r. startswith_slash (x ! 0)}"
    unfolding keys by auto
next
  fix x
  assume items: "vdev_items errors r = Inr kvs" and x: "x \<in> set r"
    and sl: "startswith_slash (x ! 0)"
  from vdev_items_Inr [OF items] x sl obtain v where v: "vdev_record errors x = Inr v"
    and kvs: "kvs = map (\<lambda>x. (x ! 0, projr (vdev_record errors x)))
                 (filter (\<lambda>x. startswith_slash (x ! 0)) r)"
    by blast
  have mem: "(x ! 0, v) \<in> set kvs"
    unfolding kvs using x sl v by (force simp: image_iff)
  note R = vdev_record_Inr [OF v]
  show "\<exists>v. (x ! 0, v) \<in> set kvs \<and> vdev_record errors x = Inr v \<and>
            (\<not> isdigit (x ! 1) \<longrightarrow> vdev_size v = 0) \<and>
            (\<not> isdigit (x ! 2) \<longrightarrow> vdev_alloc v = 0) \<and>
            (\<not> isdigit (x ! 3) \<longrightarrow> vdev_free v = 0) \<and>
            (\<not> isdigit (x ! 6) \<longrightarrow> vdev_frag v = 0) \<and>
            (\<not> isdigit (x ! 7) \<longrightarrow> vdev_usage v = 0) \<and>
            (isdigit (x ! 1) \<longrightarrow> py_int (x ! 1) = Inr (vdev_size v)) \<and>
            (isdigit (x ! 2) \<longrightarrow> py_int (x ! 2) = Inr (vdev_alloc v)) \<and>
            (isdigit (x ! 3) \<longrightarrow> py_int (x ! 3) = Inr (vdev_free v)) \<and>
            (isdigit (x ! 6) \<longrightarrow> py_int (x ! 6) = Inr (vdev_frag v)) \<and>
            (isdigit (x ! 7) \<longrightarrow> py_int (x ! 7) = Inr (vdev_usage v))"
    using mem v R by (intro exI [of _ v]) (simp add: int_or_zero_Inr_iff)
next
  assume "\<forall>x \<in> set r. x \<noteq> [] \<and> (startswith_slash (x ! 0) \<longrightarrow>
        10 \<le> length x \<and> x ! 0 \<in> dom errors \<and>
        (\<forall>i \<in> {1, 2, 3, 6, 7}. \<not> isdigit (x ! i) \<or> numeral_str (x ! i)))"
  then show "\<exists>kvs. vdev_items errors r = Inr kvs"
    by (rule vdev_items_total)
qed

theorem kept_rows_coerced_witness:
  "\<exists>kvs. vdev_items [''/dev/sda'' \<mapsto> \<lparr>err_read = 0, err_write = 0, err_cksum = 0\<rparr>]
      [[''tank'', ''100'', ''40'', ''60'', ''-'', ''-'', ''3'', ''40'', ''1.00'', ''ONLINE''],
       [''/dev/sda'', ''100'', ''-'', ''-'', ''-'', ''-'', ''-'', ''-'', ''-'', ''ONLINE'']]
      = Inr kvs \<and>
    map fst kvs = [''/dev/sda''] \<and>
    (\<exists>v. (''/dev/sda'', v) \<in> set kvs \<and> vdev_size v = 100 \<and> vdev_alloc v = 0 \<and>
       vdev_free v = 0 \<and> vdev_frag v = 0 \<and> vdev_usage v = 0)"
proof -
  let ?e = "[''/dev/sda'' \<mapsto> \<lparr>err_read = 0, err_write = 0, err_cksum = 0\<rparr>]"
  let ?t = "[''tank'', ''100'', ''40'', ''60'', ''-'', ''-'', ''3'', ''40'', ''1.00'', ''ONLINE'']"
  let ?d = "[''/dev/sda'', ''100'', ''-'', ''-'', ''-'', ''-'', ''-'', ''-'', ''-'', ''ONLINE'']"
  have nd: "\<not> isdigit ''-''" "isdigit ''100''" "numeral_str ''100''" "py_int ''100'' = Inr 100"
    by (simp_all add: str_defs numeral_str_def)
  have sl: "startswith_slash (?d ! 0)" "\<not> startswith_slash (?t ! 0)"
    by (simp_all add: startswith_slash_def)
  have fields: "\<forall>i \<in> {1, 2, 3, 6, 7}. \<not> isdigit (?d ! i) \<or> numeral_str (?d ! i)"
    using nd by simp
  have wf: "\<forall>x \<in> set [?t, ?d]. x \<noteq> [] \<and> (startswith_slash (x ! 0) \<longrightarrow>
        10 \<le> length x \<and> x ! 0 \<in> dom ?e \<and>
        (\<forall>i \<in> {1, 2, 3, 6, 7}. \<not> isdigit (x ! i) \<or> numeral_str (x ! i)))"
  proof
    fix x
    assume "x \<in> set [?t, ?d]"
    then consider "x = ?t" | "x = ?d" by auto
    then show "x \<noteq> [] \<and> (startswith_slash (x ! 0) \<longrightarrow>
        10 \<le> length x \<and> x ! 0 \<in> dom ?e \<and>
        (\<forall>i \<in> {1, 2, 3, 6, 7}. \<not> isdigit (x ! i) \<or> numeral_str (x ! i)))"
    proof cases
      case 1
      with sl(2) show ?thesis by simp
    next
      case 2
      have "?d \<noteq> []" "10 \<le> length ?d" "?d ! 0 \<in> dom ?e" by simp_all
      show ?thesis unfolding 2 using fields by simp
    qed
  qed
  have "\<exists>kvs. vdev_items ?e [?t, ?d] = Inr kvs"
    using kept_rows_coerced [of ?e "[?t, ?d]", THEN conjunct2, THEN mp, OF wf] .
  then obtain kvs where h: "vdev_items ?e [?t, ?d] = Inr kvs" ..
  note t = kept_rows_coerced [of ?e "[?t, ?d]" kvs, THEN conjunct1, THEN mp, OF h]
  have flt: "filter (\<lambda>x. startswith_slash (x ! 0)) [?t, ?d] = [?d]"
    using sl by simp
  have keys: "map fst kvs = [''/dev/sda'']"
    unfolding t [THEN conjunct1] flt by simp
  have mem: "?d \<in> set [?t, ?d]" by simp
  note td = t [THEN conjunct2, THEN conjunct2, THEN bspec, OF mem, THEN mp, OF sl(1)]
  have "\<exists>v. (''/dev/sda'', v) \<in> set kvs \<and> vdev_size v = 100 \<and> vdev_alloc v = 0 \<and>
       vdev_free v = 0 \<and> vdev_frag v = 0 \<and> vdev_usage v = 0"
  proof -
    from td obtain v where v: "(?d ! 0, v) \<in> set kvs \<and> vdev_record ?e ?d = Inr v \<and>
            (\<not> isdigit (?d ! 1) \<longrightarrow> vdev_size v = 0) \<and>
            (\<not> isdigit (?d ! 2) \<longrightarrow> vdev_alloc v = 0) \<and>
            (\<not> isdigit (?d ! 3) \<longrightarrow> vdev_free v = 0) \<and>
            (\<not> isdigit (?d ! 6) \<longrightarrow> vdev_frag v = 0) \<and>
            (\<not> isdigit (?d ! 7) \<longrightarrow> vdev_usage v = 0) \<and>
            (isdigit (?d ! 1) \<longrightarrow> py_int (?d ! 1) = Inr (vdev_size v)) \<and>
            (isdigit (?d ! 2) \<longrightarrow> py_int (?d ! 2) = Inr (vdev_alloc v)) \<and>
            (isdigit (?d ! 3) \<longrightarrow> py_int (?d ! 3) = Inr (vdev_free v)) \<and>
            (isdigit (?d ! 6) \<longrightarrow> py_int (?d ! 6) = Inr (vdev_frag v)) \<and>
            (isdigit (?d ! 7) \<longrightarrow> py_int (?d ! 7) = Inr (vdev_usage v))" ..
    have m: "(''/dev/sda'', v) \<in> set kvs" using v [THEN conjunct1] by simp
    note r = v [THEN conjunct2, THEN conjunct2]
    have a: "vdev_alloc v = 0" using r [THEN conjunct2, THEN conjunct1] nd(1) by simp
    have f: "vdev_free v = 0"
      using r [THEN conjunct2, THEN conjunct2, THEN conjunct1] nd(1) by simp
    have g: "vdev_frag v = 0"
      using r [THEN conjunct2, THEN conjunct2, THEN conjunct2, THEN conjunct1] nd(1) by simp
    have u: "vdev_usage v = 0"
      using r [THEN conjunct2, THEN conjunct2, THEN conjunct2, THEN conjunct2, THEN conjunct1]
        nd(1) by simp
    have z: "vdev_size v = 100"
      using r [THEN conjunct2, THEN conjunct2, THEN conjunct2, THEN conjunct2, THEN conjunct2,
          THEN conjunct1] nd(2,4) by simp
    from m z a f g u show ?thesis by blast
  qed
  then have ex: "\<exists>v. (''/dev/sda'', v) \<in> set kvs \<and> vdev_size v = 100 \<and> vdev_alloc v = 0 \<and>
       vdev_free v = 0 \<and> vdev_frag v = 0 \<and> vdev_usage v = 0" .
  show ?thesis
    by (intro exI [of _ kvs] conjI h keys ex)
qed

lemma not_Inr_Inl: "(\<forall>v. x \<noteq> Inr v) \<Longrightarrow> \<exists>e. x = Inl e"
  by (cases x) auto

lemma pool_item_fails:
  assumes "scrub (x ! 0) = None"
  shows "\<exists>e. bind_e (idx x 0) (\<lambda>k. bind_e (pool_record float fs scrub x) (\<lambda>v. Inr (k, v)))
           = Inl e"
proof (rule not_Inr_Inl, intro allI notI)
  fix kv
  assume "bind_e (idx x 0) (\<lambda>k. bind_e (pool_record float fs scrub x) (\<lambda>v. Inr (k, v)))
      = Inr kv"
  then obtain p where "pool_record float fs scrub x = Inr p"
    by (auto simp: bind_e_Inr_iff)
  from pool_record_Inr [OF this] assms show False by auto
qed

lemma vdev_item_fails:
  assumes "errors (x ! 0) = None"
  shows "\<exists>e. bind_e (idx x 0) (\<lambda>k. bind_e (vdev_record errors x) (\<lambda>v. Inr (k, v))) = Inl e"
proof (rule not_Inr_Inl, intro allI notI)
  fix kv
  assume "bind_e (idx x 0) (\<lambda>k. bind_e (vdev_record errors x) (\<lambda>v. Inr (k, v))) = Inr kv"
  then obtain v where "vdev_record errors x = Inr v"
    by (auto simp: bind_e_Inr_iff)
  from vdev_record_Inr [OF this] assms show False by auto
qed

lemma pool_items_fails:
  assumes "x \<in> set r" and "scrub (x ! 0) = None"
  shows "\<exists>e. pool_items float fs scrub r = Inl e"
proof -
  from pool_item_fails [of scrub x float fs, OF assms(2)] obtain e where
    "bind_e (idx x 0) (\<lambda>k. bind_e (pool_record float fs scrub x) (\<lambda>v. Inr (k, v))) = Inl e"
    by blast
  then show ?thesis
    unfolding pool_items_def
    by (intro comprehend_fails [OF assms(1)]) (simp add: always_def)
qed

lemma vdev_items_fails:
  assumes "x \<in> set r" and "startswith_slash (x ! 0)" and "errors (x ! 0) = None"
  shows "\<exists>e. vdev_items errors r = Inl e"
proof (cases "x = []")
  case True
  then have "retained x = Inl IndexError" by (simp add: retained_def idx_def)
  then show ?thesis
    unfolding vdev_items_def by (intro comprehend_fails [OF assms(1)]) simp
next
  case False
  then have c: "retained x = Inr True"
    using assms(2) by (simp add: retained_True_iff)
  from vdev_item_fails [of errors x, OF assms(3)] obtain e where
    "bind_e (idx x 0) (\<lambda>k. bind_e (vdev_record errors x) (\<lambda>v. Inr (k, v))) = Inl e"
    by blast
  with c show ?thesis
    unfolding vdev_items_def by (intro comprehend_fails [OF assms(1)]) simp
qed

lemma pool_record_KeyError:
  assumes "7 \<le> length x" and "\<forall>i \<in> {1, 2, 3, 4, 5}. \<exists>n. py_int (x ! i) = Inr n"
    and "\<exists>d. float (x ! 6) = Inr d" and "scrub (x ! 0) = None"
  shows "pool_record float fs scrub x = Inl KeyError"
proof -
  from assms(2) obtain a b c d e where
    "py_int (x ! 1) = Inr a" "py_int (x ! 2) = Inr b" "py_int (x ! 3) = Inr c"
    "py_int (x ! 4) = Inr d" "py_int (x ! 5) = Inr e"
    by auto
  moreover from assms(3) obtain f where "float (x ! 6) = Inr f" ..
  ultimately show ?thesis
    using assms(1,4) by (auto simp: pool_record_def int_at_def idx_def lookup_def)
qed

lemma vdev_record_KeyError:
  assumes "10 \<le> length x"
    and "\<forall>i \<in> {1, 2, 3, 6, 7}. \<not> isdigit (x ! i) \<or> numeral_str (x ! i)"
    and "errors (x ! 0) = None"
  shows "vdev_record errors x = Inl KeyError"
proof -
  obtain a where a: "int_or_zero x 1 = Inr a"
    using int_or_zero_total [of 1 x] assms(1,2) by auto
  obtain b where b: "int_or_zero x 2 = Inr b"
    using int_or_zero_total [of 2 x] assms(1,2) by auto
  obtain c where c: "int_or_zero x 3 = Inr c"
    using int_or_zero_total [of 3 x] assms(1,2) by auto
  obtain d where d: "int_or_zero x 6 = Inr d"
    using int_or_zero_total [of 6 x] assms(1,2) by auto
  obtain f where f: "int_or_zero x 7 = Inr f"
    using int_or_zero_total [of 7 x] assms(1,2) by auto
  show ?thesis
    using assms(1,3) a b c d f by (auto simp: vdev_record_def idx_def lookup_def)
qed

lemma pool_list_rows:
  "run out Tab = Inr r \<Longrightarrow>
     pool_list float fs out scrub = bind_e (pool_items float fs scrub r) (\<lambda>kvs. Inr (dict_of kvs))"
  by (simp add: pool_list_def)

lemma vdev_list_rows:
  "run out Tab = Inr r \<Longrightarrow>
     vdev_list out errors = bind_e (vdev_items errors r) (\<lambda>kvs. Inr (dict_of kvs))"
  by (simp add: vdev_list_def)

text \<open>
  Claim C3, as amended. The pool listing builder fails whenever a row of the pool listing
  names a pool that has no entry in the scrub map, and the device listing builder fails
  whenever a retained row has a path that has no entry in the error map: no default is
  put in its place. The exception is the KeyError of the lookup when the rows before
  that row are built and the fields of the row that are read before the lookup convert;
  otherwise it is the exception that is raised first.
\<close>

theorem missing_entry_fails:
  "(run out Tab = Inr r \<and> x \<in> set r \<and> scrub (x ! 0) = None
      \<longrightarrow> (\<exists>e. pool_list float fs out scrub = Inl e)) \<and>
   (run out Tab = Inr (pre @ x # post) \<and> (\<exists>kvs. pool_items float fs scrub pre = Inr kvs) \<and>
    7 \<le> length x \<and> (\<forall>i \<in> {1, 2, 3, 4, 5}. \<exists>n. py_int (x ! i) = Inr n) \<and>
    (\<exists>d. float (x ! 6) = Inr d) \<and> scrub (x ! 0) = None
      \<longrightarrow> pool_list float fs out scrub = Inl KeyError) \<and>
   (run out' Tab = Inr r' \<and> y \<in> set r' \<and> startswith_slash (y ! 0) \<and> errors (y ! 0) = None
      \<longrightarrow> (\<exists>e. vdev_list out' errors = Inl e)) \<and>
   (run out' Tab = Inr (pre' @ y # post') \<and> (\<exists>kvs. vdev_items errors pre' = Inr kvs) \<and>
    10 \<le> length y \<and> startswith_slash (y ! 0) \<and>
    (\<forall>i \<in> {1, 2, 3, 6, 7}. \<not> isdigit (y ! i) \<or> numeral_str (y ! i)) \<and>
    errors (y ! 0) = None
      \<longrightarrow> vdev_list out' errors = Inl KeyError)"
proof (intro conjI impI)
  assume a: "run out Tab = Inr r \<and> x \<in> set r \<and> scrub (x ! 0) = None"
  then obtain e where "pool_items float fs scrub r = Inl e"
    using pool_items_fails [of x r scrub float fs] by blast
  with a show "\<exists>e. pool_list float fs out scrub = Inl e"
    by (simp add: pool_list_rows)
next
  assume a: "run out Tab = Inr (pre @ x # post) \<and>
    (\<exists>kvs. pool_items float fs scrub pre = Inr kvs) \<and>
    7 \<le> length x \<and> (\<forall>i \<in> {1, 2, 3, 4, 5}. \<exists>n. py_int (x ! i) = Inr n) \<and>
    (\<exists>d. float (x ! 6) = Inr d) \<and> scrub (x ! 0) = None"
  then obtain kvs where pre: "pool_items float fs scrub pre = Inr kvs" by blast
  from a have "pool_record float fs scrub x = Inl KeyError"
    by (intro pool_record_KeyError) simp_all
  moreover from a have "x \<noteq> []" by auto
  ultimately have
    "bind_e (idx x 0) (\<lambda>k. bind_e (pool_record float fs scrub x) (\<lambda>v. Inr (k, v)))
       = Inl KeyError"
    by (simp add: idx_def)
  then have "pool_items float fs scrub (pre @ x # post) = Inl KeyError"
    using pre unfolding pool_items_def
    by (intro comprehend_first_error) (simp_all add: always_def)
  with a show "pool_list float fs out scrub = Inl KeyError"
    by (simp add: pool_list_rows)
next
  assume a: "run out' Tab = Inr r' \<and> y \<in> set r' \<and> startswith_slash (y ! 0) \<and>
    errors (y ! 0) = None"
  then obtain e where "vdev_items errors r' = Inl e"
    using vdev_items_fails [of y r' errors] by blast
  with a show "\<exists>e. vdev_list out' errors = Inl e"
    by (simp add: vdev_list_rows)
next
  assume a: "run out' Tab = Inr (pre' @ y # post') \<and>
    (\<exists>kvs. vdev_items errors pre' = Inr kvs) \<and>
    10 \<le> length y \<and> startswith_slash (y ! 0) \<and>
    (\<forall>i \<in> {1, 2, 3, 6, 7}. \<not> isdigit (y ! i) \<or> numeral_str (y ! i)) \<and>
    errors (y ! 0) = None"
  then obtain kvs where pre: "vdev_items errors pre' = Inr kvs" by blast
  from a have "vdev_record errors y = Inl KeyError"
    by (intro vdev_record_KeyError) simp_all
  moreover from a have ne: "y \<noteq> []" by auto
  moreover from a ne have "retained y = Inr True" by (simp add: retained_True_iff)
  ultimately have
    "retained y = Inr True \<and>
     bind_e (idx y 0) (\<lambda>k. bind_e (vdev_record errors y) (\<lambda>v. Inr (k, v))) = Inl KeyError"
    by (simp add: idx_def)
  then have "vdev_items errors (pre' @ y # post') = Inl KeyError"
    using pre unfolding vdev_items_def
    by (intro comprehend_first_error) simp_all
  with a show "vdev_list out' errors = Inl KeyError"
    by (simp add: vdev_list_rows)
qed

theorem missing_entry_fails_witness:
  "pool_list float_text no_files
     (Inr (tabbed [''tank'', ''10'', ''4'', ''6'', ''1'', ''40'', ''1.00'', ''ONLINE'']))
     Map.empty = Inl KeyError \<and>
   vdev_list
     (Inr (tabbed [''/dev/sda'', ''100'', ''-'', ''-'', ''-'', ''-'', ''-'', ''-'', ''-'',
                   ''ONLINE'']))
     Map.empty = Inl KeyError"
proof -
  let ?x = "[''tank'', ''10'', ''4'', ''6'', ''1'', ''40'', ''1.00'', ''ONLINE'']"
  let ?y = "[''/dev/sda'', ''100'', ''-'', ''-'', ''-'', ''-'', ''-'', ''-'', ''-'', ''ONLINE'']"
  let ?out = "Inr (tabbed ?x) :: error + string"
  let ?out' = "Inr (tabbed ?y) :: error + string"
  let ?scrub = "Map.empty :: string \<rightharpoonup> bool"
  let ?errors = "Map.empty :: string \<rightharpoonup> vdev_error"
  have rx: "run ?out Tab = Inr ([] @ ?x # [])"
    by (simp add: run_def re_split_def split_char_def str_defs)
  have ry: "run ?out' Tab = Inr ([] @ ?y # [])"
    by (simp add: run_def re_split_def split_char_def str_defs)
  have px: "\<exists>kvs. pool_items float_text no_files ?scrub [] = Inr kvs"
    by (simp add: pool_items_def)
  have py: "\<exists>kvs. vdev_items ?errors [] = Inr kvs"
    by (simp add: vdev_items_def)
  have ix: "\<forall>i \<in> {1, 2, 3, 4, 5}. \<exists>n. py_int (?x ! i) = Inr n"
    by (simp add: str_defs)
  have fx: "\<exists>d. float_text (?x ! 6) = Inr d"
    by (simp add: float_text_def)
  have nd: "\<not> isdigit ''-''" "numeral_str ''100''"
    by (simp_all add: str_defs numeral_str_def)
  have iy: "\<forall>i \<in> {1, 2, 3, 6, 7}. \<not> isdigit (?y ! i) \<or> numeral_str (?y ! i)"
    using nd by simp
  have sy: "startswith_slash (?y ! 0)" by (simp add: startswith_slash_def)
  have lx: "7 \<le> length ?x" and ly: "10 \<le> length ?y" by simp_all
  have sx: "?scrub (?x ! 0) = None" and ey: "?errors (?y ! 0) = None" by simp_all
  note t = missing_entry_fails [where out = ?out and pre = "[]" and x = ?x and post = "[]" and
      scrub = ?scrub and float = float_text and fs = no_files and out' = ?out' and
      pre' = "[]" and y = ?y and post' = "[]" and errors = ?errors]
  have a: "pool_list float_text no_files ?out ?scrub = Inl KeyError"
    by (rule t [THEN conjunct2, THEN conjunct1, THEN mp]) (intro conjI rx px lx ix fx sx)
  have b: "vdev_list ?out' ?errors = Inl KeyError"
    by (rule t [THEN conjunct2, THEN conjunct2, THEN conjunct2, THEN mp])
       (intro conjI ry py ly sy iy ey)
  from a b show ?thesis by (rule conjI)
qed

text \<open>
  The claim as first stated fails on a pool row whose fragmentation field is a dash: the
  pool has no entry in the scrub map, and the builder fails with the ValueError of
  \<open>int\<close>, which is raised before the lookup.
\<close>

theorem missing_entry_fault_counterexample:
  "run (Inr (tabbed [''tank'', ''10'', ''4'', ''6'', ''-'', ''40'', ''1.00'', ''ONLINE''])) Tab
     = Inr [[''tank'', ''10'', ''4'', ''6'', ''-'', ''40'', ''1.00'', ''ONLINE'']] \<and>
   dict_of [] ''tank'' = (None :: bool option) \<and>
   pool_list float_text no_files
     (Inr (tabbed [''tank'', ''10'', ''4'', ''6'', ''-'', ''40'', ''1.00'', ''ONLINE'']))
     (dict_of []) = Inl ValueError"
  by (simp add: run_def re_split_def split_char_def pool_list_def run_defs str_defs)

lemma bind_e_Inl_iff:
  "bind_e x f = Inl e \<longleftrightarrow> x = Inl e \<or> (\<exists>v. x = Inr v \<and> f v = Inl e)"
  by (cases x) simp_all

lemma bind_e_fails: "(\<And>v. \<exists>e. f v = Inl e) \<Longrightarrow> \<exists>e. bind_e x f = Inl e"
  by (cases x) simp_all

lemma snapshot_pool_list_fails:
  assumes "\<And>scrub. \<exists>e. pool_list float fs pool_out scrub = Inl e"
  shows "\<exists>e. snapshot float fs status_out vdev_out pool_out zfs_out = Inl e"
  unfolding snapshot_def
proof (rule bind_e_fails)
  fix sv :: "(string \<rightharpoonup> bool) \<times> (string \<rightharpoonup> vdev_error)"
  obtain scrub vdev_errors where sv: "sv = (scrub, vdev_errors)" by (cases sv)
  from assms [of scrub] obtain e where e: "pool_list float fs pool_out scrub = Inl e" ..
  have "\<exists>e. bind_e (vdev_list vdev_out vdev_errors) (\<lambda>v.
     bind_e (pool_list float fs pool_out scrub) (\<lambda>p.
     bind_e (zfs_list float zfs_out) (\<lambda>d.
     bind_e (arc_stats fs) (\<lambda>a.
     bind_e (slab_usage fs) (\<lambda>s.
     Inr \<lparr>vdevs = v, pools = p, datasets = d, arc = a, slab = s\<rparr>))))) = Inl e"
    by (rule bind_e_fails) (simp add: e)
  then show "\<exists>e. (case sv of (scrub, vdev_errors) \<Rightarrow>
     bind_e (vdev_list vdev_out vdev_errors) (\<lambda>v.
     bind_e (pool_list float fs pool_out scrub) (\<lambda>p.
     bind_e (zfs_list float zfs_out) (\<lambda>d.
     bind_e (arc_stats fs) (\<lambda>a.
     bind_e (slab_usage fs) (\<lambda>s.
     Inr \<lparr>vdevs = v, pools = p, datasets = d, arc = a, slab = s\<rparr>)))))) = Inl e"
    by (simp add: sv)
qed

lemma pool_io_stats_short:
  assumes "io_rows fs pool = Inr r" and "length r < 2"
  shows "pool_io_stats fs pool = Inl IndexError"
  using assms by (auto simp: pool_io_stats_def idx_def)

lemma pool_io_stats_Inr_rows:
  assumes "pool_io_stats fs pool = Inr m"
  shows "\<exists>r. io_rows fs pool = Inr r \<and> 2 \<le> length r \<and>
           (\<exists>kvs. io_items (zip (r ! 0) (r ! 1)) = Inr kvs \<and> m = dict_of kvs)"
  using assms unfolding pool_io_stats_def
  by (elim bind_e_InrE) (auto simp: idx_Inr_iff)

lemma pool_list_io_fails:
  assumes "run out Tab = Inr rows" and "x \<in> set rows" and "pool_io_stats fs (x ! 0) = Inl e"
  shows "\<exists>e'. pool_list float fs out scrub = Inl e'"
proof -
  let ?f = "\<lambda>x. bind_e (idx x 0) (\<lambda>k. bind_e (pool_record float fs scrub x) (\<lambda>v. Inr (k, v)))"
  have "\<exists>e'. ?f x = Inl e'"
  proof (rule not_Inr_Inl, intro allI notI)
    fix kv
    assume "?f x = Inr kv"
    then obtain p where "pool_record float fs scrub x = Inr p"
      by (auto simp: bind_e_Inr_iff)
    from pool_record_Inr [OF this] assms(3) show False by simp
  qed
  then obtain e' where "?f x = Inl e'" ..
  then have "\<exists>e''. pool_items float fs scrub rows = Inl e''"
    unfolding pool_items_def
    by (intro comprehend_fails [OF assms(2)]) (simp add: always_def)
  then show ?thesis
    using assms(1) by (auto simp: pool_list_rows)
qed

subsection \<open>The pool I/O statistics\<close>

text \<open>
  Claim C9. When the file the extractor selects gives fewer than two rows after the
  header line, the extractor raises IndexError; this is so in particular when the
  \<open>iostats\<close> file is read and gives fewer than two rows, whatever the \<open>io\<close> file
  holds, since the fallback guards the first read only. So the extractor returns only
  on at least two rows. A pool listing with a row for such a pool fails, and the script
  with it.
\<close>

theorem io_stats_needs_two_rows:
  "(io_rows fs pool = Inr r \<and> length r < 2 \<longrightarrow> pool_io_stats fs pool = Inl IndexError) \<and>
   (read_file fs (stat_path pool ''iostats'') 1 = Inr r \<and> length r < 2
      \<longrightarrow> pool_io_stats fs pool = Inl IndexError) \<and>
   (pool_io_stats fs pool = Inr m \<longrightarrow> (\<exists>r'. io_rows fs pool = Inr r' \<and> 2 \<le> length r')) \<and>
   (run pool_out Tab = Inr rows \<and> x \<in> set rows \<and> io_rows fs (x ! 0) = Inr r \<and> length r < 2
      \<longrightarrow> (\<exists>e. pool_list float fs pool_out scrub = Inl e) \<and>
          (\<exists>e. snapshot float fs status_out vdev_out pool_out zfs_out = Inl e))"
proof (intro conjI impI)
  assume "io_rows fs pool = Inr r \<and> length r < 2"
  then show "pool_io_stats fs pool = Inl IndexError"
    by (simp add: pool_io_stats_short)
next
  assume a: "read_file fs (stat_path pool ''iostats'') 1 = Inr r \<and> length r < 2"
  then have "io_rows fs pool = Inr r" by (simp add: io_rows_def)
  with a show "pool_io_stats fs pool = Inl IndexError"
    by (simp add: pool_io_stats_short)
next
  assume "pool_io_stats fs pool = Inr m"
  from pool_io_stats_Inr_rows [OF this]
  show "\<exists>r'. io_rows fs pool = Inr r' \<and> 2 \<le> length r'" by blast
next
  assume a: "run pool_out Tab = Inr rows \<and> x \<in> set rows \<and> io_rows fs (x ! 0) = Inr r \<and>
    length r < 2"
  then have io: "pool_io_stats fs (x ! 0) = Inl IndexError"
    by (simp add: pool_io_stats_short)
  from a io show "\<exists>e. pool_list float fs pool_out scrub = Inl e"
    using pool_list_io_fails [of pool_out rows x fs IndexError float scrub] by simp
next
  assume a: "run pool_out Tab = Inr rows \<and> x \<in> set rows \<and> io_rows fs (x ! 0) = Inr r \<and>
    length r < 2"
  then have io: "pool_io_stats fs (x ! 0) = Inl IndexError"
    by (simp add: pool_io_stats_short)
  have "\<exists>e. pool_list float fs pool_out scrub' = Inl e" for scrub'
    using a io pool_list_io_fails [of pool_out rows x fs IndexError float scrub'] by simp
  then show "\<exists>e. snapshot float fs status_out vdev_out pool_out zfs_out = Inl e"
    by (rule snapshot_pool_list_fails)
qed

theorem io_stats_needs_two_rows_witness:
  "pool_io_stats short_io ''tank'' = Inl IndexError \<and>
   (\<exists>e. pool_list float_text short_io
          (Inr (tabbed [''tank'', ''10'', ''4'', ''6'', ''1'', ''40'', ''1.00'', ''ONLINE'']))
          [''tank'' \<mapsto> False] = Inl e)"
proof -
  let ?x = "[''tank'', ''10'', ''4'', ''6'', ''1'', ''40'', ''1.00'', ''ONLINE'']"
  let ?out = "Inr (tabbed ?x) :: error + string"
  let ?r = "[[''reads'', ''writes'']]"
  have rd: "read_file short_io (stat_path ''tank'' ''iostats'') 1 = Inr ?r \<and> length ?r < 2"
    by (simp add: read_file_def stat_path_def short_io_def re_split_ws_def str_defs)
  then have io: "io_rows short_io ''tank'' = Inr ?r" by (simp add: io_rows_def)
  have rx: "run ?out Tab = Inr [?x]"
    by (simp add: run_def re_split_def split_char_def str_defs)
  note t = io_stats_needs_two_rows [where fs = short_io and pool = "''tank''" and r = ?r and pool_out = ?out
      and rows = "[?x]" and x = ?x and float = float_text and scrub = "[''tank'' \<mapsto> False]"]
  have a: "pool_io_stats short_io ''tank'' = Inl IndexError"
    by (rule t [THEN conjunct2, THEN conjunct1, THEN mp]) (rule rd)
  have "run ?out Tab = Inr [?x] \<and> ?x \<in> set [?x] \<and> io_rows short_io (?x ! 0) = Inr ?r \<and>
      length ?r < 2"
    using rx io by simp
  then have b: "\<exists>e. pool_list float_text short_io ?out [''tank'' \<mapsto> False] = Inl e"
    by (rule t [THEN conjunct2, THEN conjunct2, THEN conjunct2, THEN mp, THEN conjunct1])
  from a b show ?thesis by (rule conjI)
qed

lemma dict_of_last:
  "k \<notin> fst ` set post \<Longrightarrow> dict_of (pre @ (k, v) # post) k = Some v"
  by (simp add: dict_of_append dict_of_Cons map_add_def dict_of_notin)

lemma io_items_Inr_iff:
  "io_items zs = Inr kvs \<longleftrightarrow>
     (\<forall>z \<in> set zs. isdigit (snd z) \<longrightarrow> numeral_str (snd z)) \<and>
     kvs = map (\<lambda>z. (fst z, int (decimal_value (snd z)))) (filter (\<lambda>z. isdigit (snd z)) zs)"
proof -
  let ?f = "\<lambda>x. bind_e (py_int (snd x)) (\<lambda>v. Inr (fst x, v))"
  have f: "?f z = (if numeral_str (snd z) then Inr (fst z, int (decimal_value (snd z)))
                   else Inl ValueError)" if "isdigit (snd z)" for z :: "string \<times> string"
    using that by (simp add: py_int_isdigit)
  have ok: "(\<forall>z \<in> set zs. Inr (isdigit (snd z)) = (Inr True :: error + bool) \<longrightarrow> (\<exists>v. ?f z = Inr v))
      \<longleftrightarrow> (\<forall>z \<in> set zs. isdigit (snd z) \<longrightarrow> numeral_str (snd z))"
    using f by auto
  have m: "map (\<lambda>z. projr (?f z)) (filter (\<lambda>z. isdigit (snd z)) zs)
      = map (\<lambda>z. (fst z, int (decimal_value (snd z)))) (filter (\<lambda>z. isdigit (snd z)) zs)"
    if "\<forall>z \<in> set zs. isdigit (snd z) \<longrightarrow> numeral_str (snd z)"
    by (rule map_cong [OF refl]) (use that f in auto)
  show ?thesis
    unfolding io_items_def comprehend_Inr_iff using ok m by auto
qed

lemma pool_io_stats_total:
  assumes "io_rows fs pool = Inr rows" and "2 \<le> length rows"
    and "\<forall>z \<in> set (zip (rows ! 0) (rows ! 1)). isdigit (snd z) \<longrightarrow> numeral_str (snd z)"
  shows "\<exists>m. pool_io_stats fs pool = Inr m"
proof -
  from assms(3) obtain kvs where "io_items (zip (rows ! 0) (rows ! 1)) = Inr kvs"
    by (simp add: io_items_Inr_iff)
  then show ?thesis
    using assms(1,2) by (auto simp: pool_io_stats_def idx_def)
qed

text \<open>
  Claim C6, as amended. The extractor reads the \<open>iostats\<close> file with one line
  skipped, and when that read raises anything it reads the \<open>io\<close> file with one line
  skipped. Whenever it returns, the selected file gave at least two rows, and the result
  is the dictionary of the pairs of the zipped first two rows whose value passes
  \<open>isdigit\<close>, each name with the integer of its value: its keys are the names of
  these pairs, a name that has no such pair is absent, and a name that has several has
  the integer of the last. It returns whenever there are two rows and every value that
  passes \<open>isdigit\<close> is a numeral.
\<close>

theorem io_stats_result:
  "(read_file fs (stat_path pool ''iostats'') 1 = Inr r \<longrightarrow> io_rows fs pool = Inr r) \<and>
   (read_file fs (stat_path pool ''iostats'') 1 = Inl e
      \<longrightarrow> io_rows fs pool = read_file fs (stat_path pool ''io'') 1) \<and>
   (pool_io_stats fs pool = Inr m \<longrightarrow>
      (\<exists>rows. io_rows fs pool = Inr rows \<and> 2 \<le> length rows \<and>
         m = dict_of (map (\<lambda>z. (fst z, int (decimal_value (snd z))))
                (filter (\<lambda>z. isdigit (snd z)) (zip (rows ! 0) (rows ! 1)))) \<and>
         dom m = fst ` {z \<in> set (zip (rows ! 0) (rows ! 1)). isdigit (snd z)} \<and>
         (\<forall>pre k v post.
            zip (rows ! 0) (rows ! 1) = pre @ (k, v) # post \<and> isdigit v \<and>
            (\<forall>z \<in> set post. isdigit (snd z) \<longrightarrow> fst z \<noteq> k)
            \<longrightarrow> py_int v = Inr (int (decimal_value v)) \<and> m k = Some (int (decimal_value v))))) \<and>
   (io_rows fs pool = Inr rows' \<and> 2 \<le> length rows' \<and>
    (\<forall>z \<in> set (zip (rows' ! 0) (rows' ! 1)). isdigit (snd z) \<longrightarrow> numeral_str (snd z))
      \<longrightarrow> (\<exists>m. pool_io_stats fs pool = Inr m))"
proof (intro conjI impI)
  assume "read_file fs (stat_path pool ''iostats'') 1 = Inr r"
  then show "io_rows fs pool = Inr r" by (simp add: io_rows_def)
next
  assume "read_file fs (stat_path pool ''iostats'') 1 = Inl e"
  then show "io_rows fs pool = read_file fs (stat_path pool ''io'') 1"
    by (simp add: io_rows_def)
next
  assume "pool_io_stats fs pool = Inr m"
  from pool_io_stats_Inr_rows [OF this] obtain rows kvs where
    rows: "io_rows fs pool = Inr rows" "2 \<le> length rows" and
    items: "io_items (zip (rows ! 0) (rows ! 1)) = Inr kvs" and m: "m = dict_of kvs"
    by blast
  let ?zs = "zip (rows ! 0) (rows ! 1)"
  let ?g = "\<lambda>z :: string \<times> string. (fst z, int (decimal_value (snd z)))"
  let ?P = "\<lambda>z :: string \<times> string. isdigit (snd z)"
  from items have num: "\<forall>z \<in> set ?zs. isdigit (snd z) \<longrightarrow> numeral_str (snd z)"
    and kvs: "kvs = map ?g (filter ?P ?zs)"
    by (simp_all add: io_items_Inr_iff)
  have eq: "m = dict_of (map ?g (filter ?P ?zs))" by (simp add: m kvs)
  have dm: "dom m = fst ` {z \<in> set ?zs. isdigit (snd z)}"
    unfolding eq dom_dict_of by (auto simp: image_iff)
  have last: "py_int v = Inr (int (decimal_value v)) \<and> m k = Some (int (decimal_value v))"
    if z: "?zs = pre @ (k, v) # post" and d: "isdigit v"
      and n: "\<forall>z \<in> set post. isdigit (snd z) \<longrightarrow> fst z \<noteq> k" for pre k v post
  proof -
    have "(k, v) \<in> set ?zs" by (subst z) simp
    with num d have "numeral_str v" by auto
    then have p: "py_int v = Inr (int (decimal_value v))" by (rule py_int_numeral)
    have "map ?g (filter ?P ?zs)
        = map ?g (filter ?P pre) @ (k, int (decimal_value v)) # map ?g (filter ?P post)"
      by (subst z) (simp add: d)
    moreover have "k \<notin> fst ` set (map ?g (filter ?P post))"
      using n by (auto simp: image_iff)
    ultimately have "m k = Some (int (decimal_value v))"
      unfolding eq by (simp add: dict_of_last)
    with p show ?thesis by simp
  qed
  show "\<exists>rows. io_rows fs pool = Inr rows \<and> 2 \<le> length rows \<and>
         m = dict_of (map (\<lambda>z. (fst z, int (decimal_value (snd z))))
                (filter (\<lambda>z. isdigit (snd z)) (zip (rows ! 0) (rows ! 1)))) \<and>
         dom m = fst ` {z \<in> set (zip (rows ! 0) (rows ! 1)). isdigit (snd z)} \<and>
         (\<forall>pre k v post.
            zip (rows ! 0) (rows ! 1) = pre @ (k, v) # post \<and> isdigit v \<and>
            (\<forall>z \<in> set post. isdigit (snd z) \<longrightarrow> fst z \<noteq> k)
            \<longrightarrow> py_int v = Inr (int (decimal_value v)) \<and> m k = Some (int (decimal_value v)))"
    apply (rule exI [of _ rows])
    apply (intro conjI rows eq dm allI impI)
     apply (rule last [THEN conjunct1], simp, simp, simp)
    apply (rule last [THEN conjunct2], simp, simp, simp)
    done
next
  assume "io_rows fs pool = Inr rows' \<and> 2 \<le> length rows' \<and>
    (\<forall>z \<in> set (zip (rows' ! 0) (rows' ! 1)). isdigit (snd z) \<longrightarrow> numeral_str (snd z))"
  then show "\<exists>m. pool_io_stats fs pool = Inr m"
    using pool_io_stats_total [of fs pool rows'] by simp
qed

theorem io_stats_result_witness:
  "pool_io_stats legacy_io ''tank'' = Inr (dict_of [(''reads'', 7), (''nread'', 12)]) \<and>
   io_rows legacy_io ''tank'' = read_file legacy_io (stat_path ''tank'' ''io'') 1 \<and>
   dom (dict_of [(''reads'', 7 :: int), (''nread'', 12)]) = {''reads'', ''nread''} \<and>
   dict_of [(''reads'', 7 :: int), (''nread'', 12)] ''nread'' = Some 12"
proof -
  let ?m = "dict_of [(''reads'', 7 :: int), (''nread'', 12)]"
  let ?R = "[[''reads'', ''writes'', ''nread''], [''7'', ''-'', ''12'']]"
  have h: "pool_io_stats legacy_io ''tank'' = Inr ?m"
    by (simp add: legacy_io_def run_defs str_defs)
  have miss: "read_file legacy_io (stat_path ''tank'' ''iostats'') 1 = Inl FileNotFoundError"
    by (simp add: legacy_io_def read_file_def stat_path_def)
  have io: "io_rows legacy_io ''tank'' = Inr ?R"
    by (simp add: legacy_io_def run_defs str_defs)
  note t = io_stats_result [where fs = legacy_io and pool = "''tank''" and e = FileNotFoundError
      and m = ?m]
  have fb: "io_rows legacy_io ''tank'' = read_file legacy_io (stat_path ''tank'' ''io'') 1"
    by (rule t [THEN conjunct2, THEN conjunct1, THEN mp]) (rule miss)
  from t [THEN conjunct2, THEN conjunct2, THEN conjunct1, THEN mp, OF h]
  obtain rows where rows: "io_rows legacy_io ''tank'' = Inr rows \<and> 2 \<le> length rows \<and>
         ?m = dict_of (map (\<lambda>z. (fst z, int (decimal_value (snd z))))
                (filter (\<lambda>z. isdigit (snd z)) (zip (rows ! 0) (rows ! 1)))) \<and>
         dom ?m = fst ` {z \<in> set (zip (rows ! 0) (rows ! 1)). isdigit (snd z)} \<and>
         (\<forall>pre k v post.
            zip (rows ! 0) (rows ! 1) = pre @ (k, v) # post \<and> isdigit v \<and>
            (\<forall>z \<in> set post. isdigit (snd z) \<longrightarrow> fst z \<noteq> k)
            \<longrightarrow> py_int v = Inr (int (decimal_value v)) \<and> ?m k = Some (int (decimal_value v)))" ..
  from rows [THEN conjunct1] io have r: "rows = ?R" by simp
  have dg: "isdigit ''7''" "\<not> isdigit ''-''" "isdigit ''12''" "decimal_value ''12'' = 12"
    by (simp_all add: str_defs decimal_value_def)
  have "dom ?m = fst ` {z \<in> set (zip (?R ! 0) (?R ! 1)). isdigit (snd z)}"
    using rows [THEN conjunct2, THEN conjunct2, THEN conjunct2, THEN conjunct1]
    unfolding r .
  also have "\<dots> = fst ` set (filter (\<lambda>z. isdigit (snd z)) (zip (?R ! 0) (?R ! 1)))"
    by (simp only: set_filter)
  also have "filter (\<lambda>z. isdigit (snd z)) (zip (?R ! 0) (?R ! 1))
      = [(''reads'', ''7''), (''nread'', ''12'')]"
    using dg by simp
  also have "fst ` set [(''reads'', ''7''), (''nread'', ''12'')] = {''reads'', ''nread''}"
    by simp
  finally have d: "dom ?m = {''reads'', ''nread''}" .
  have "zip (?R ! 0) (?R ! 1) = [(''reads'', ''7''), (''writes'', ''-'')] @ (''nread'', ''12'') # [] \<and>
      isdigit ''12'' \<and> (\<forall>z \<in> set []. isdigit (snd z) \<longrightarrow> fst z \<noteq> ''nread'')"
    using dg by simp
  then have "py_int ''12'' = Inr (int (decimal_value ''12'')) \<and>
      ?m ''nread'' = Some (int (decimal_value ''12''))"
    using rows [THEN conjunct2, THEN conjunct2, THEN conjunct2, THEN conjunct2,
        unfolded r, rule_format] by blast
  then have v: "?m ''nread'' = Some 12" using dg(4) by simp
  show ?thesis by (intro conjI h fb d v)
qed

text \<open>
  The claim as first stated fails when a counter name stands twice in the header row:
  the pair of \<open>reads\<close> and 7 has a purely numeric value, and the result maps
  \<open>reads\<close> to 9, the value of the later pair.
\<close>

theorem io_stats_pairs_counterexample:
  "io_rows dup_io ''tank'' = Inr [[''reads'', ''reads''], [''7'', ''9'']] \<and>
   isdigit ''7'' \<and> py_int ''7'' = Inr 7 \<and>
   io_value dup_io ''tank'' ''reads'' = Inr (Some 9)"
  by (simp add: io_value_def dup_io_def dict_of_def run_defs str_defs)

lemma slab_counted_Inr_iff: "slab_counted x = Inr b \<longleftrightarrow> 3 \<le> length x \<and> b = isdigit (x ! 2)"
  by (auto simp: slab_counted_def bind_e_Inr_iff idx_Inr_iff)

lemma slab_items_Inr_iff:
  "comprehend slab_counted (\<lambda>x. int_at x 2) rows = Inr vs \<longleftrightarrow>
     (\<forall>x \<in> set rows. 3 \<le> length x \<and> (isdigit (x ! 2) \<longrightarrow> numeral_str (x ! 2))) \<and>
     vs = map (\<lambda>x. int (decimal_value (x ! 2))) (filter (\<lambda>x. isdigit (x ! 2)) rows)"
proof (induction rows arbitrary: vs)
  case Nil
  show ?case by auto
next
  case (Cons x rows)
  show ?case
  proof (cases "3 \<le> length x")
    case False
    then have "slab_counted x = Inl IndexError"
      by (simp add: slab_counted_def idx_def)
    with False show ?thesis by simp
  next
    case True
    then have c: "slab_counted x = Inr (isdigit (x ! 2))"
      by (simp add: slab_counted_def idx_def)
    show ?thesis
    proof (cases "isdigit (x ! 2)")
      case False
      with c True show ?thesis by (simp add: Cons.IH)
    next
      case d: True
      have i: "int_at x 2 = (if numeral_str (x ! 2) then Inr (int (decimal_value (x ! 2)))
                             else Inl ValueError)"
        using True d by (simp add: int_at_def idx_def py_int_isdigit)
      show ?thesis
      proof (cases "numeral_str (x ! 2)")
        case False
        with c d i show ?thesis by simp
      next
        case n: True
        with c d i True show ?thesis
          by (auto simp: bind_e_Inr_iff Cons.IH)
      qed
    qed
  qed
qed

lemma slab_sum_Inr_iff:
  "slab_sum rows = Inr n \<longleftrightarrow>
     (\<forall>x \<in> set rows. 3 \<le> length x \<and> (isdigit (x ! 2) \<longrightarrow> numeral_str (x ! 2))) \<and>
     n = sum_list (map (\<lambda>x. int (decimal_value (x ! 2))) (filter (\<lambda>x. isdigit (x ! 2)) rows))"
  by (auto simp: slab_sum_def bind_e_Inr_iff slab_items_Inr_iff)

lemma slab_sum_short_row:
  assumes "\<forall>y \<in> set pre. 3 \<le> length y \<and> (isdigit (y ! 2) \<longrightarrow> numeral_str (y ! 2))"
    and "length x < 3"
  shows "slab_sum (pre @ x # post) = Inl IndexError"
proof -
  from assms(1) obtain vs where "comprehend slab_counted (\<lambda>x. int_at x 2) pre = Inr vs"
    by (simp add: slab_items_Inr_iff)
  moreover from assms(2) have "slab_counted x = Inl IndexError"
    by (simp add: slab_counted_def idx_def)
  ultimately have "comprehend slab_counted (\<lambda>x. int_at x 2) (pre @ x # post) = Inl IndexError"
    by (intro comprehend_first_error) simp_all
  then show ?thesis by (simp add: slab_sum_def)
qed

subsection \<open>The slab usage\<close>

text \<open>
  Claim C7, as amended. When every row after the two header lines has at least three
  fields, and every third field that passes \<open>isdigit\<close> is a numeral, the aggregator
  returns the sum of the third fields of the rows whose third field passes
  \<open>isdigit\<close>, and skips the other rows. On the first row with fewer than three
  fields it raises IndexError, so it returns only when every row has three fields.
\<close>

theorem slab_usage_sum:
  "(read_file fs ''/proc/spl/kmem/slab'' 2 = Inr rows \<and>
    (\<forall>x \<in> set rows. 3 \<le> length x \<and> (isdigit (x ! 2) \<longrightarrow> numeral_str (x ! 2)))
      \<longrightarrow> slab_usage fs =
            Inr (sum_list (map (\<lambda>x. int (decimal_value (x ! 2)))
                    (filter (\<lambda>x. isdigit (x ! 2)) rows))) \<and>
          (\<forall>x \<in> set rows. isdigit (x ! 2) \<longrightarrow> py_int (x ! 2) = Inr (int (decimal_value (x ! 2))))) \<and>
   (read_file fs ''/proc/spl/kmem/slab'' 2 = Inr (pre @ x # post) \<and>
    (\<forall>y \<in> set pre. 3 \<le> length y \<and> (isdigit (y ! 2) \<longrightarrow> numeral_str (y ! 2))) \<and>
    length x < 3
      \<longrightarrow> slab_usage fs = Inl IndexError) \<and>
   (slab_usage fs = Inr n
      \<longrightarrow> (\<exists>rows'. read_file fs ''/proc/spl/kmem/slab'' 2 = Inr rows' \<and>
            (\<forall>x \<in> set rows'. 3 \<le> length x)))"
proof (intro conjI impI)
  assume a: "read_file fs ''/proc/spl/kmem/slab'' 2 = Inr rows \<and>
    (\<forall>x \<in> set rows. 3 \<le> length x \<and> (isdigit (x ! 2) \<longrightarrow> numeral_str (x ! 2)))"
  then have "slab_sum rows = Inr (sum_list (map (\<lambda>x. int (decimal_value (x ! 2)))
                    (filter (\<lambda>x. isdigit (x ! 2)) rows)))"
    by (simp add: slab_sum_Inr_iff)
  with a show "slab_usage fs = Inr (sum_list (map (\<lambda>x. int (decimal_value (x ! 2)))
                    (filter (\<lambda>x. isdigit (x ! 2)) rows)))"
    by (simp add: slab_usage_def)
  from a show "\<forall>x \<in> set rows. isdigit (x ! 2) \<longrightarrow> py_int (x ! 2) = Inr (int (decimal_value (x ! 2)))"
    by (auto simp: py_int_numeral)
next
  assume a: "read_file fs ''/proc/spl/kmem/slab'' 2 = Inr (pre @ x # post) \<and>
    (\<forall>y \<in> set pre. 3 \<le> length y \<and> (isdigit (y ! 2) \<longrightarrow> numeral_str (y ! 2))) \<and>
    length x < 3"
  then have "slab_sum (pre @ x # post) = Inl IndexError"
    by (intro slab_sum_short_row) simp_all
  with a show "slab_usage fs = Inl IndexError"
    by (simp add: slab_usage_def)
next
  assume "slab_usage fs = Inr n"
  then obtain rows' where r: "read_file fs ''/proc/spl/kmem/slab'' 2 = Inr rows'"
    and s: "slab_sum rows' = Inr n"
    by (auto simp: slab_usage_def bind_e_Inr_iff)
  from s have "\<forall>x \<in> set rows'. 3 \<le> length x"
    by (simp add: slab_sum_Inr_iff)
  with r show "\<exists>rows'. read_file fs ''/proc/spl/kmem/slab'' 2 = Inr rows' \<and>
            (\<forall>x \<in> set rows'. 3 \<le> length x)"
    by blast
qed

theorem slab_usage_sum_witness:
  "slab_usage slab_ok = Inr 12288"
proof -
  let ?rows = "[[''kcf_cache'', ''0x40'', ''4096'', ''''], [''zio_cache'', ''0x40'', ''-'', ''''],
                [''ddt_cache'', ''0x40'', ''8192'', '''']]"
  have rd: "read_file slab_ok ''/proc/spl/kmem/slab'' 2 = Inr ?rows"
    by (simp add: slab_ok_def run_defs str_defs)
  have dg: "isdigit ''4096''" "numeral_str ''4096''" "\<not> isdigit ''-''" "isdigit ''8192''"
    "numeral_str ''8192''" "decimal_value ''4096'' = 4096" "decimal_value ''8192'' = 8192"
    by (simp_all add: str_defs numeral_str_def decimal_value_def)
  have wf: "\<forall>x \<in> set ?rows. 3 \<le> length x \<and> (isdigit (x ! 2) \<longrightarrow> numeral_str (x ! 2))"
    using dg by simp
  note t = slab_usage_sum [where fs = slab_ok and rows = ?rows, THEN conjunct1, THEN mp,
      OF conjI [OF rd wf], THEN conjunct1]
  have "sum_list (map (\<lambda>x. int (decimal_value (x ! 2))) (filter (\<lambda>x. isdigit (x ! 2)) ?rows))
      = 12288"
    using dg by simp
  with t show ?thesis by simp
qed

text \<open>
  The claim as first stated fails on a file that ends with an empty line: the line splits
  into two empty fields, and the subscript for the third field raises IndexError.
\<close>

theorem slab_short_row_counterexample:
  "read_file slab_short ''/proc/spl/kmem/slab'' 2
     = Inr [[''kcf_cache'', ''0x40'', ''4096'', ''''], ['''', '''']] \<and>
   slab_usage slab_short = Inl IndexError"
  by (simp add: slab_short_def slab_usage_def slab_sum_def slab_counted_def run_defs str_defs)

end
